theory Spec2Isabelle
  imports Main "HOL-Library.Sublist" "HOL-Library.Log_Nat"
begin

chapter \<open>The pocketpy editor extension: path relay, launch probe and line profiler\<close>

text \<open>
  A shallow embedding of \<^verbatim>\<open>src/extension.ts\<close>: the debug-adapter tracker that rewrites
  source paths, the launch probe \<^verbatim>\<open>pingserver\<close>, and the line profiler decorator
  (\<^verbatim>\<open>mapLinesToBlocks\<close>, \<^verbatim>\<open>applyToEditor\<close>, \<^verbatim>\<open>formatDuration\<close>).
  All definitions come first; the lemmas and theorems about them follow.
\<close>

section \<open>Node's \<^verbatim>\<open>path\<close> module (POSIX flavour)\<close>

text \<open>
  The extension calls \<^verbatim>\<open>path.relative\<close>, \<^verbatim>\<open>path.join\<close>, \<^verbatim>\<open>path.normalize\<close> and
  \<^verbatim>\<open>path.isAbsolute\<close> of the Node.js runtime. They are library code, modelled here after
  \<^verbatim>\<open>path.posix\<close>: a path is a string (a list of characters), the separator is
  \<^verbatim>\<open>/\<close>. The library scans characters; the model works on the list of segments between
  separators, which yields the same strings. \<^verbatim>\<open>process.cwd()\<close>, against which the library
  resolves relative arguments, is the explicit parameter \<open>cwd\<close>. The Windows flavour
  (drive letters, backslashes, case folding) is not modelled.
\<close>

definition isAbsolute :: "string \<Rightarrow> bool" where
  "isAbsolute p = (case p of [] \<Rightarrow> False | c # _ \<Rightarrow> c = CHR ''/'')"

fun split_sep :: "string \<Rightarrow> string list" where
  "split_sep [] = [[]]"
| "split_sep (c # cs) =
     (if c = CHR ''/'' then [] # split_sep cs
      else (c # hd (split_sep cs)) # tl (split_sep cs))"

fun joinSegs :: "string list \<Rightarrow> string" where
  "joinSegs [] = []"
| "joinSegs [s] = s"
| "joinSegs (s # t # ss) = s @ CHR ''/'' # joinSegs (t # ss)"

text \<open>
  \<^verbatim>\<open>normalizeString(path, allowAboveRoot)\<close>: empty segments and \<^verbatim>\<open>.\<close> are skipped,
  \<^verbatim>\<open>..\<close> removes the last kept segment, or is kept itself when nothing is left to
  remove and the path may climb above its start. \<open>res\<close> holds the kept segments, last first.
\<close>

fun normalizeSegs :: "bool \<Rightarrow> string list \<Rightarrow> string list \<Rightarrow> string list" where
  "normalizeSegs allowAboveRoot res [] = rev res"
| "normalizeSegs allowAboveRoot res (s # ss) =
     (if s = [] \<or> s = ''.'' then normalizeSegs allowAboveRoot res ss
      else if s = ''..'' then
        (case res of
           [] \<Rightarrow> normalizeSegs allowAboveRoot (if allowAboveRoot then [''..''] else []) ss
         | r # rs \<Rightarrow>
             if r = ''..''
             then normalizeSegs allowAboveRoot (if allowAboveRoot then ''..'' # res else res) ss
             else normalizeSegs allowAboveRoot rs ss)
      else normalizeSegs allowAboveRoot (s # res) ss)"

definition normalizeString :: "string \<Rightarrow> bool \<Rightarrow> string" where
  "normalizeString p allowAboveRoot = joinSegs (normalizeSegs allowAboveRoot [] (split_sep p))"

definition normalize :: "string \<Rightarrow> string" where
  "normalize p =
     (if p = [] then ''.''
      else
        let isAbs = isAbsolute p;
            trailingSeparator = (last p = CHR ''/'');
            s = normalizeString p (\<not> isAbs)
        in if s = [] then (if isAbs then ''/'' else if trailingSeparator then ''./'' else ''.'')
           else (if isAbs then ''/'' else []) @ s @ (if trailingSeparator then ''/'' else []))"

definition join :: "string list \<Rightarrow> string" where
  "join args =
     (let parts = filter (\<lambda>a. a \<noteq> []) args
      in if parts = [] then ''.'' else normalize (joinSegs parts))"

text \<open>
  \<^verbatim>\<open>path.resolve(p)\<close> with one argument: a relative \<open>p\<close> is taken against \<open>cwd\<close>;
  the result is normalised and carries no trailing separator.
\<close>

definition resolve :: "string \<Rightarrow> string \<Rightarrow> string" where
  "resolve cwd p =
     (let rp = (if p = [] then [] else p @ ''/'');
          rp = (if isAbsolute rp \<or> cwd = [] then rp else cwd @ ''/'' @ rp);
          resolvedAbsolute = isAbsolute rp;
          s = normalizeString rp (\<not> resolvedAbsolute)
      in if resolvedAbsolute then ''/'' @ s else if s \<noteq> [] then s else ''.'')"

fun strip_common :: "string list \<Rightarrow> string list \<Rightarrow> string list \<times> string list" where
  "strip_common [] bs = ([], bs)"
| "strip_common (a # as) [] = (a # as, [])"
| "strip_common (a # as) (b # bs) = (if a = b then strip_common as bs else (a # as, b # bs))"

definition segments :: "string \<Rightarrow> string list" where
  "segments p = filter (\<lambda>s. s \<noteq> []) (split_sep p)"

text \<open>
  \<^verbatim>\<open>path.relative(from, to)\<close>: both arguments are resolved, their common leading segments
  are dropped, and the result climbs out of what is left of \<open>from\<close> with one \<^verbatim>\<open>..\<close> per
  segment before descending into what is left of \<open>to\<close>.
\<close>

definition relative :: "string \<Rightarrow> string \<Rightarrow> string \<Rightarrow> string" where
  "relative cwd from to =
     (if from = to then []
      else
        let from' = resolve cwd from; to' = resolve cwd to
        in if from' = to' then []
           else
             let (fromRest, toRest) = strip_common (segments from') (segments to')
             in joinSegs (replicate (length fromRest) ''..'' @ toRest))"

section \<open>PathMappingTrackerFactory: the two path rewriters\<close>

text \<open>
  \<^verbatim>\<open>toRelativePath\<close> as the tracker of the current extension defines it: the path relative
  to \<^verbatim>\<open>sourceFolder\<close>, for every argument.
\<close>

definition toRelativePath :: "string \<Rightarrow> string \<Rightarrow> string \<Rightarrow> string" where
  "toRelativePath cwd sourceFolder absPath = relative cwd sourceFolder absPath"

text \<open>
  The earlier tracker, kept in the source beside the current one, rewrote only a path that
  has the workspace folder as a string prefix (\<^verbatim>\<open>absPath.startsWith(workspaceFolder)\<close>).
\<close>

definition toRelativePath_workspace :: "string \<Rightarrow> string \<Rightarrow> string \<Rightarrow> string" where
  "toRelativePath_workspace cwd workspaceFolder absPath =
     (if prefix workspaceFolder absPath then relative cwd workspaceFolder absPath else absPath)"

definition toAbsolutePath :: "string \<Rightarrow> string \<Rightarrow> string" where
  "toAbsolutePath sourceFolder relPath =
     (if \<not> isAbsolute relPath then join [sourceFolder, relPath] else relPath)"

text \<open>
  Paths in normal form: \<open>absolute_of ss\<close> is the absolute path with the segments \<open>ss\<close>,
  each of them \<open>proper\<close> (not empty, free of separators, neither \<^verbatim>\<open>.\<close> nor \<^verbatim>\<open>..\<close>).
  A path lies under a root when the root's segments are a prefix of its own.
\<close>

definition proper :: "string \<Rightarrow> bool" where
  "proper s = (s \<noteq> [] \<and> CHR ''/'' \<notin> set s \<and> s \<noteq> ''.'' \<and> s \<noteq> ''..'')"

definition absolute_of :: "string list \<Rightarrow> string" where
  "absolute_of ss = CHR ''/'' # joinSegs ss"

section \<open>Protocol messages as JSON values\<close>

text \<open>
  The tracker receives messages typed \<^verbatim>\<open>any\<close>: whatever JSON the peer sent. Objects keep
  their fields in order, as JavaScript objects do; a lookup finds the first field of a name
  and an assignment replaces it in place. Numbers are the integers the protocol uses
  (sequence numbers, ids, lines). The result \<open>None\<close> of a lookup is JavaScript's
  \<^verbatim>\<open>undefined\<close>.
\<close>

datatype json =
    JNull
  | JBool bool
  | JNum int
  | JStr string
  | JArr "json list"
  | JObj "(string \<times> json) list"

text \<open>
  What the code can throw: a \<^verbatim>\<open>TypeError\<close> (a property of \<^verbatim>\<open>null\<close>, a non-string handed
  to the path module), the editor's illegal-argument error (a line outside the document, a
  negative position), and the timeout of the launch probe.
\<close>

datatype error = TypeError | IllegalArgument | Timeout

text \<open>\<^verbatim>\<open>v.k\<close> on a value that is not \<^verbatim>\<open>null\<close>, and \<^verbatim>\<open>v?.k\<close> on any value.\<close>

fun get :: "json \<Rightarrow> string \<Rightarrow> json option" where
  "get (JObj fs) k = map_of fs k"
| "get _ k = None"

fun opt_get :: "json option \<Rightarrow> string \<Rightarrow> json option" where
  "opt_get None k = None"
| "opt_get (Some JNull) k = None"
| "opt_get (Some v) k = get v k"

fun truthy :: "json option \<Rightarrow> bool" where
  "truthy None = False"
| "truthy (Some JNull) = False"
| "truthy (Some (JBool b)) = b"
| "truthy (Some (JNum n)) = (n \<noteq> 0)"
| "truthy (Some (JStr s)) = (s \<noteq> [])"
| "truthy (Some (JArr xs)) = True"
| "truthy (Some (JObj fs)) = True"

fun set_field :: "string \<Rightarrow> json \<Rightarrow> (string \<times> json) list \<Rightarrow> (string \<times> json) list" where
  "set_field k v [] = [(k, v)]"
| "set_field k v ((k', v') # fs) =
     (if k = k' then (k, v) # fs else (k', v') # set_field k v fs)"

fun set_prop :: "json \<Rightarrow> string \<Rightarrow> json \<Rightarrow> json" where
  "set_prop (JObj fs) k v = JObj (set_field k v fs)"
| "set_prop j k v = j"

text \<open>\<^verbatim>\<open>holder.source.path = v\<close>, for a holder whose \<^verbatim>\<open>source\<close> is an object.\<close>

definition set_source_path :: "json \<Rightarrow> json \<Rightarrow> json" where
  "set_source_path holder v =
     (case get holder ''source'' of
        Some src \<Rightarrow> set_prop holder ''source'' (set_prop src ''path'' v)
      | None \<Rightarrow> holder)"

text \<open>
  Template literals: \<^verbatim>\<open>`${v}`\<close> converts \<open>v\<close> to a string. An integer prints in decimal
  (below \<open>10\<^sup>2\<^sup>1\<close>, where JavaScript switches to exponent notation).
\<close>

fun show_nat :: "nat \<Rightarrow> string" where
  "show_nat n = (if n < 10 then [''0123456789'' ! n]
                 else show_nat (n div 10) @ [''0123456789'' ! (n mod 10)])"

declare show_nat.simps [simp del]

definition show_int :: "int \<Rightarrow> string" where
  "show_int i = (if i < 0 then CHR ''-'' # show_nat (nat (- i)) else show_nat (nat i))"

fun joinWith :: "string \<Rightarrow> string list \<Rightarrow> string" where
  "joinWith sep [] = []"
| "joinWith sep [s] = s"
| "joinWith sep (s # t # ss) = s @ sep @ joinWith sep (t # ss)"

fun js_toString :: "json \<Rightarrow> string" where
  "js_toString JNull = ''null''"
| "js_toString (JBool b) = (if b then ''true'' else ''false'')"
| "js_toString (JNum n) = show_int n"
| "js_toString (JStr s) = s"
| "js_toString (JArr xs) =
     joinWith '','' (map (\<lambda>x. if x = JNull then [] else js_toString x) xs)"
| "js_toString (JObj fs) = ''[object Object]''"

section \<open>The tracker: \<^verbatim>\<open>onWillReceiveMessage\<close> and \<^verbatim>\<open>onDidSendMessage\<close>\<close>

text \<open>
  Both hooks mutate the message they are given and return nothing; the editor forwards the
  message afterwards. The model returns the message as the hook leaves it, or the error the
  hook throws. Outbound, the path of a \<^verbatim>\<open>setBreakpoints\<close> request becomes relative to
  \<^verbatim>\<open>sourceFolder\<close>.
\<close>

definition onWillReceiveMessage :: "string \<Rightarrow> string \<Rightarrow> json \<Rightarrow> error + json" where
  "onWillReceiveMessage cwd sourceFolder message =
     (if message = JNull then Inl TypeError
      else
        case get message ''arguments'' of
          None \<Rightarrow> Inr message
        | Some args \<Rightarrow>
            let p = opt_get (opt_get (Some args) ''source'') ''path''
            in if get message ''command'' = Some (JStr ''setBreakpoints'') \<and> truthy p
               then (case p of
                       Some (JStr absPath) \<Rightarrow>
                         Inr (set_prop message ''arguments''
                                (set_source_path args (JStr (toRelativePath cwd sourceFolder absPath))))
                     | _ \<Rightarrow> Inl TypeError)
               else Inr message)"

text \<open>
  Inbound: \<^verbatim>\<open>if (holder.source?.path) holder.source.path = toAbsolutePath(...)\<close>, for the
  body of the message and for each stack frame. \<^verbatim>\<open>path.isAbsolute\<close> rejects a value that is
  not a string, and \<^verbatim>\<open>frame.source\<close> of a \<^verbatim>\<open>null\<close> frame throws.
\<close>

definition rewrite_source :: "string \<Rightarrow> json \<Rightarrow> error + json" where
  "rewrite_source sourceFolder holder =
     (let p = opt_get (get holder ''source'') ''path''
      in if truthy p
         then (case p of
                 Some (JStr relPath) \<Rightarrow>
                   Inr (set_source_path holder (JStr (toAbsolutePath sourceFolder relPath)))
               | _ \<Rightarrow> Inl TypeError)
         else Inr holder)"

fun rewrite_frames :: "string \<Rightarrow> json list \<Rightarrow> error + json list" where
  "rewrite_frames sourceFolder [] = Inr []"
| "rewrite_frames sourceFolder (frame # frames) =
     (if frame = JNull then Inl TypeError
      else case rewrite_source sourceFolder frame of
             Inl e \<Rightarrow> Inl e
           | Inr frame' \<Rightarrow>
               (case rewrite_frames sourceFolder frames of
                  Inl e \<Rightarrow> Inl e
                | Inr frames' \<Rightarrow> Inr (frame' # frames')))"

definition rewrite_body :: "string \<Rightarrow> json \<Rightarrow> error + json" where
  "rewrite_body sourceFolder body =
     (case rewrite_source sourceFolder body of
        Inl e \<Rightarrow> Inl e
      | Inr body1 \<Rightarrow>
          (case get body1 ''stackFrames'' of
             Some (JArr frames) \<Rightarrow>
               (case rewrite_frames sourceFolder frames of
                  Inl e \<Rightarrow> Inl e
                | Inr frames' \<Rightarrow> Inr (set_prop body1 ''stackFrames'' (JArr frames')))
           | _ \<Rightarrow> Inr body1))"

text \<open>The error messages shown to the user: one for a \<^verbatim>\<open>fatalError\<close> event, none otherwise.\<close>

definition fatal_notifications :: "json \<Rightarrow> string list" where
  "fatal_notifications message =
     (if get message ''type'' = Some (JStr ''event'') \<and> get message ''event'' = Some (JStr ''fatalError'')
      then let errorMsg = (case opt_get (get message ''body'') ''message'' of
                             None \<Rightarrow> ''Unknown fatal error''
                           | Some v \<Rightarrow> if truthy (Some v) then js_toString v
                                       else ''Unknown fatal error'')
           in [''[C11 Debugger] '' @ errorMsg]
      else [])"

definition onDidSendMessage :: "string \<Rightarrow> json \<Rightarrow> error + json \<times> string list" where
  "onDidSendMessage sourceFolder message =
     (if message = JNull then Inl TypeError
      else
        case (case opt_get (Some message) ''body'' of
                None \<Rightarrow> Inr message
              | Some body \<Rightarrow>
                  if body = JNull then Inr message
                  else (case rewrite_body sourceFolder body of
                          Inl e \<Rightarrow> Inl e
                        | Inr body' \<Rightarrow> Inr (set_prop message ''body'' body'))) of
          Inl e \<Rightarrow> Inl e
        | Inr message' \<Rightarrow> Inr (message', fatal_notifications message'))"

text \<open>
  Messages that follow the protocol's schema where the tracker reads them: a path that is
  present and truthy is a string, and an entry of \<^verbatim>\<open>stackFrames\<close> is not \<^verbatim>\<open>null\<close>.
  Fields may be absent or \<^verbatim>\<open>null\<close> at every level.
\<close>

fun is_string :: "json option \<Rightarrow> bool" where
  "is_string (Some (JStr s)) = True"
| "is_string _ = False"

definition path_ok :: "json \<Rightarrow> bool" where
  "path_ok holder = (let p = opt_get (get holder ''source'') ''path'' in \<not> truthy p \<or> is_string p)"


definition frames_of :: "json \<Rightarrow> json list" where
  "frames_of message =
     (case opt_get (get message ''body'') ''stackFrames'' of Some (JArr frames) \<Rightarrow> frames | _ \<Rightarrow> [])"

definition body_of :: "json \<Rightarrow> json" where
  "body_of message = (case get message ''body'' of Some body \<Rightarrow> body | None \<Rightarrow> JNull)"

definition inbound_ok :: "json \<Rightarrow> bool" where
  "inbound_ok message =
     (message \<noteq> JNull \<and> path_ok (body_of message)
      \<and> list_all (\<lambda>frame. frame \<noteq> JNull \<and> path_ok frame) (frames_of message))"

definition args_of :: "json \<Rightarrow> json" where
  "args_of message = (case get message ''arguments'' of Some args \<Rightarrow> args | None \<Rightarrow> JNull)"

definition outbound_ok :: "json \<Rightarrow> bool" where
  "outbound_ok message =
     (message \<noteq> JNull \<and>
      (get message ''command'' = Some (JStr ''setBreakpoints'') \<longrightarrow>
         path_ok (args_of message)))"





text \<open>Sample messages: a fatal-error event, a breakpoint request, a stack trace response.\<close>

definition fatal_event :: "string \<Rightarrow> json" where
  "fatal_event msg = JObj [(''seq'', JNum 7), (''type'', JStr ''event''), (''event'', JStr ''fatalError''),
      (''body'', JObj [(''message'', JStr msg)])]"

definition setBreakpoints_request :: json where
  "setBreakpoints_request =
     JObj [(''seq'', JNum 3), (''type'', JStr ''request''), (''command'', JStr ''setBreakpoints''),
           (''arguments'', JObj [(''source'', JObj [(''name'', JStr ''a.py''),
                                                   (''path'', JStr ''/w/src/a.py'')]),
                                (''lines'', JArr [JNum 3])])]"

definition stackTrace_response :: json where
  "stackTrace_response =
     JObj [(''type'', JStr ''response''), (''command'', JStr ''stackTrace''),
           (''body'', JObj [(''stackFrames'', JArr [
              JObj [(''id'', JNum 1),
                    (''source'', JObj [(''name'', JStr ''a.py''), (''path'', JStr ''src/a.py'')]),
                    (''line'', JNum 3)],
              JObj [(''id'', JNum 2), (''line'', JNum 7)]])])]"

section \<open>The launch probe \<^verbatim>\<open>pingserver\<close>\<close>

text \<open>
  One connection attempt, as the promise inside the loop sees it: the socket delivers data
  after some milliseconds (the promise resolves), it reports an error after some
  milliseconds (the promise rejects: a refused connection, a reset, the operating system's
  connect timeout), or neither event ever arrives (the connection is accepted and the peer
  stays silent): the promise has no timer of its own and then never settles.
\<close>

datatype attempt = Data nat | Error nat | Silent

text \<open>
  The loop of \<^verbatim>\<open>pingserver\<close> with the clock made explicit: \<open>start\<close> and \<open>now\<close> are
  readings of \<^verbatim>\<open>Date.now()\<close> in milliseconds, \<open>net i\<close> is what the \<open>i\<close>-th attempt
  meets, and time passes only while the loop awaits: the attempt, then the 150 ms of
  \<^verbatim>\<open>setTimeout\<close>. The result is the time at which the function returns, with the error it
  throws or nothing; \<open>None\<close> says that it never returns.
\<close>

partial_function (option) pingserver_loop ::
  "(nat \<Rightarrow> attempt) \<Rightarrow> nat \<Rightarrow> nat \<Rightarrow> nat \<Rightarrow> (nat \<times> (error + unit)) option" where
  "pingserver_loop net start now i =
     (if now - start > 60000 then Some (now, Inl Timeout)
      else case net i of
             Data d \<Rightarrow> Some (now + d, Inr ())
           | Error d \<Rightarrow> pingserver_loop net start (now + d + 150) (Suc i)
           | Silent \<Rightarrow> None)"

definition pingserver :: "(nat \<Rightarrow> attempt) \<Rightarrow> nat \<Rightarrow> (nat \<times> (error + unit)) option" where
  "pingserver net start = pingserver_loop net start start 0"

text \<open>An endpoint that accepts every connection and never answers.\<close>

definition silent_endpoint :: "nat \<Rightarrow> attempt" where
  "silent_endpoint i = Silent"

section \<open>LineProfilerDecorator: \<^verbatim>\<open>mapLinesToBlocks\<close>\<close>

text \<open>
  A \<^verbatim>\<open>LineInfo\<close> is declared \<^verbatim>\<open>{ color: string, blockID: number }\<close>. Both fields are read
  from an earlier entry of the map through \<^verbatim>\<open>lineMap.get(...)?.blockID!\<close>, which yields
  \<^verbatim>\<open>undefined\<close> when there is no such entry: a field is \<open>None\<close> then.
\<close>

record LineInfo =
  color :: "string option"
  blockID :: "nat option"

text \<open>A folding range of the editor: its first and last line, counted from 0.\<close>

type_synonym FoldingRange = "nat \<times> nat"

definition getBlockColors :: "string list" where
  "getBlockColors = [''#9C27B0'', ''#2196F3'', ''#4CAF50'', ''#FF9800'', ''#F44336'']"

text \<open>
  \<^verbatim>\<open>text.trimStart()\<close> removes the leading white space and line terminators of
  ECMAScript. A line of the document is the list of the bytes of its UTF-8 encoding, so a
  white space character is one byte (tab, line feed, vertical tab, form feed, carriage
  return, space), two bytes (U+00A0) or three (U+1680, U+2000 to U+200A, U+2028, U+2029,
  U+202F, U+205F, U+3000, U+FEFF).
\<close>

definition whiteSpace1 :: "char \<Rightarrow> bool" where
  "whiteSpace1 a = (a \<in> set [CHR 0x09, CHR 0x0A, CHR 0x0B, CHR 0x0C, CHR 0x0D, CHR 0x20])"

definition whiteSpace2 :: "char \<Rightarrow> char \<Rightarrow> bool" where
  "whiteSpace2 a b = (a = CHR 0xC2 \<and> b = CHR 0xA0)"

definition whiteSpace3 :: "char \<Rightarrow> char \<Rightarrow> char \<Rightarrow> bool" where
  "whiteSpace3 a b c =
     ((a = CHR 0xE1 \<and> b = CHR 0x9A \<and> c = CHR 0x80)
      \<or> (a = CHR 0xE2 \<and> b = CHR 0x80
           \<and> c \<in> set [CHR 0x80, CHR 0x81, CHR 0x82, CHR 0x83, CHR 0x84, CHR 0x85, CHR 0x86,
                        CHR 0x87, CHR 0x88, CHR 0x89, CHR 0x8A, CHR 0xA8, CHR 0xA9, CHR 0xAF])
      \<or> (a = CHR 0xE2 \<and> b = CHR 0x81 \<and> c = CHR 0x9F)
      \<or> (a = CHR 0xE3 \<and> b = CHR 0x80 \<and> c = CHR 0x80)
      \<or> (a = CHR 0xEF \<and> b = CHR 0xBB \<and> c = CHR 0xBF))"

fun trimStart :: "string \<Rightarrow> string" where
  "trimStart (a # b # c # s) =
     (if whiteSpace1 a then trimStart (b # c # s)
      else if whiteSpace2 a b then trimStart (c # s)
      else if whiteSpace3 a b c then trimStart s
      else a # b # c # s)"
| "trimStart [a, b] =
     (if whiteSpace1 a then trimStart [b] else if whiteSpace2 a b then [] else [a, b])"
| "trimStart [a] = (if whiteSpace1 a then [] else [a])"
| "trimStart [] = []"

text \<open>
  The state of the loop over the folding ranges. \<open>endStack\<close> lists the JavaScript array
  from its last element, the top of the stack, to its first.
\<close>

record blocks =
  lineMap :: "nat \<rightharpoonup> LineInfo"
  endStack :: "nat list"
  nextBlockId :: nat

text \<open>
  \<^verbatim>\<open>while (fr.start > endStack[endStack.length - 1]) endStack.pop()\<close>: on the empty
  array the comparison with \<^verbatim>\<open>undefined\<close> is false and the loop stops.
\<close>

fun popClosed :: "nat \<Rightarrow> nat list \<Rightarrow> nat list" where
  "popClosed start [] = []"
| "popClosed start (e # rest) = (if start > e then popClosed start rest else e # rest)"

text \<open>The inner loop: every line of the range gets an entry under its number counted from 1.\<close>

definition assignLines :: "(nat \<rightharpoonup> LineInfo) \<Rightarrow> nat \<Rightarrow> nat \<Rightarrow> LineInfo \<Rightarrow> LineInfo \<Rightarrow> (nat \<rightharpoonup> LineInfo)" where
  "assignLines m start endLine parent own =
     fold (\<lambda>line m. m(line + 1 \<mapsto> (if line = start then parent else own))) [start..<Suc endLine] m"

text \<open>
  One folding range. \<^verbatim>\<open>editor.document.lineAt(fr.start)\<close> throws for a line outside the
  document; a range that does not start with \<^verbatim>\<open>def \<close> is skipped.
\<close>

definition processRange :: "string list \<Rightarrow> blocks \<Rightarrow> FoldingRange \<Rightarrow> error + blocks" where
  "processRange lines st fr =
     (let (start, endLine) = fr
      in if start \<ge> length lines then Inl IllegalArgument
         else if \<not> prefix ''def '' (trimStart (lines ! start)) then Inr st
         else
           let stack = popClosed start (endStack st);
               own = \<lparr>color = Some (getBlockColors ! (length stack mod length getBlockColors)),
                      blockID = Some (nextBlockId st)\<rparr>;
               found = (case stack of [] \<Rightarrow> None | e # _ \<Rightarrow> lineMap st e);
               parent = \<lparr>color = (case found of None \<Rightarrow> None | Some info \<Rightarrow> color info),
                         blockID = (case found of None \<Rightarrow> None | Some info \<Rightarrow> blockID info)\<rparr>
           in Inr \<lparr>lineMap = assignLines (lineMap st) start endLine parent own,
                   endStack = endLine # stack,
                   nextBlockId = nextBlockId st + 1\<rparr>)"

fun processRanges :: "string list \<Rightarrow> blocks \<Rightarrow> FoldingRange list \<Rightarrow> error + blocks" where
  "processRanges lines st [] = Inr st"
| "processRanges lines st (fr # frs) =
     (case processRange lines st fr of
        Inl e \<Rightarrow> Inl e
      | Inr st' \<Rightarrow> processRanges lines st' frs)"

definition initialBlocks :: "nat \<Rightarrow> blocks" where
  "initialBlocks lineCount =
     \<lparr>lineMap = [lineCount \<mapsto> \<lparr>color = Some (getBlockColors ! 0), blockID = Some 0\<rparr>],
      endStack = [lineCount],
      nextBlockId = 1\<rparr>"

text \<open>
  \<^verbatim>\<open>mapLinesToBlocks\<close>: the map cached for the document, if there is one, and otherwise
  the map built from the document's lines and folding ranges.
\<close>

definition mapLinesToBlocks ::
  "(nat \<rightharpoonup> LineInfo) option \<Rightarrow> string list \<Rightarrow> FoldingRange list \<Rightarrow> error + (nat \<rightharpoonup> LineInfo)" where
  "mapLinesToBlocks cached lines foldRanges =
     (case cached of
        Some m \<Rightarrow> Inr m
      | None \<Rightarrow>
          (case processRanges lines (initialBlocks (length lines)) foldRanges of
             Inl e \<Rightarrow> Inl e
           | Inr st \<Rightarrow> Inr (lineMap st)))"

text \<open>
  The twelve-line document of the nested example: \<^verbatim>\<open>def f\<close> on line 2 folds to line
  10, \<^verbatim>\<open>def g\<close> inside it on line 4 folds to line 6.
\<close>

definition nested_lines :: "string list" where
  "nested_lines =
     [''import m'', '''',
      ''def f(x):'',
      ''    y = x'',
      ''    def g(z):'',
      ''        w = z'',
      ''        return w'',
      ''    a = g(y)'',
      ''    b = a'',
      ''    c = b'',
      ''    return c'',
      ''f(1)'']"

definition nested_map :: "nat \<rightharpoonup> LineInfo" where
  "nested_map = (case mapLinesToBlocks None nested_lines [(2, 10), (4, 6)] of
                   Inr m \<Rightarrow> m | Inl e \<Rightarrow> Map.empty)"

definition parentInfo :: "blocks \<Rightarrow> nat \<Rightarrow> LineInfo option" where
  "parentInfo st start = (case popClosed start (endStack st) of [] \<Rightarrow> None | e # _ \<Rightarrow> lineMap st e)"

text \<open>
  The attribution the folding ranges stand for. A line lies in the body of a function's
  range when it is inside the range and is not its first line; the scope owning a line is the
  innermost function whose body holds it, numbered by the function's position among the
  processed function ranges, and 0, the module, when there is none; the colour is the
  palette's, by the number of function bodies around the line.
\<close>

definition inBody :: "nat \<Rightarrow> FoldingRange \<Rightarrow> bool" where
  "inBody l r = (fst r < l \<and> l \<le> snd r)"

fun scopeRev :: "FoldingRange list \<Rightarrow> nat \<Rightarrow> nat" where
  "scopeRev [] l = 0"
| "scopeRev (r # earlier) l = (if inBody l r then length earlier + 1 else scopeRev earlier l)"

definition lexicalScope :: "FoldingRange list \<Rightarrow> nat \<Rightarrow> nat" where
  "lexicalScope rs l = scopeRev (rev rs) l"

definition lexicalDepth :: "FoldingRange list \<Rightarrow> nat \<Rightarrow> nat" where
  "lexicalDepth rs l = length (filter (inBody l) rs)"

definition lexicalInfo :: "FoldingRange list \<Rightarrow> nat \<Rightarrow> LineInfo" where
  "lexicalInfo rs l =
     \<lparr>color = Some (getBlockColors ! (lexicalDepth rs l mod 5)), blockID = Some (lexicalScope rs l)\<rparr>"

definition covered :: "FoldingRange list \<Rightarrow> nat \<Rightarrow> bool" where
  "covered rs l = (\<exists>r\<in>set rs. fst r \<le> l \<and> l \<le> snd r)"

text \<open>
  Function ranges as an editor reports them for a document of \<open>n\<close> lines: each spans at
  least two lines inside the document, they come in ascending order of their first lines,
  and any two are nested or apart.
\<close>

definition nestedOrApart :: "FoldingRange \<Rightarrow> FoldingRange \<Rightarrow> bool" where
  "nestedOrApart a b = (fst a < fst b \<and> (snd a < fst b \<or> snd b \<le> snd a))"

definition wellNested :: "nat \<Rightarrow> FoldingRange list \<Rightarrow> bool" where
  "wellNested n rs = ((\<forall>r\<in>set rs. fst r < snd r \<and> snd r < n) \<and> sorted_wrt nestedOrApart rs)"

definition isDef :: "string list \<Rightarrow> FoldingRange \<Rightarrow> bool" where
  "isDef lines fr = prefix ''def '' (trimStart (lines ! fst fr))"

definition attributed :: "nat \<Rightarrow> FoldingRange list \<Rightarrow> blocks \<Rightarrow> bool" where
  "attributed n rs st =
     (nextBlockId st = length rs + 1
      \<and> (\<forall>s. (\<forall>r\<in>set rs. fst r < s) \<and> s < n \<longrightarrow>
             popClosed s (endStack st) = map snd (rev (filter (\<lambda>r. s \<le> snd r) rs)) @ [n])
      \<and> (\<forall>l. covered rs l \<longrightarrow> lineMap st (l + 1) = Some (lexicalInfo rs l))
      \<and> (\<forall>k. (k = 0 \<or> \<not> covered rs (k - 1)) \<longrightarrow>
             lineMap st k = (if k = n then Some (lexicalInfo [] 0) else None)))"

section \<open>JavaScript numbers\<close>

text \<open>
  A JavaScript number is an IEEE 754 binary64 value. The finite ones are rationals, and each
  arithmetic operation returns the exact result rounded to the nearest value with a 53-bit
  significand, ties to even: \<open>fl\<close>. \<open>binexp x\<close> is the binary exponent of \<open>x\<close>, the \<open>e\<close>
  with \<open>2\<^sup>e \<le> \<bar>x\<bar> < 2\<^sup>e\<^sup>+\<^sup>1\<close>. The exponent range is left unbounded: the model has
  neither overflow to \<^verbatim>\<open>Infinity\<close> nor subnormal numbers, and \<^verbatim>\<open>NaN\<close> is treated where
  the code can produce it.
\<close>

definition binexp :: "rat \<Rightarrow> int" where
  "binexp x =
     (let (p, q) = quotient_of \<bar>x\<bar>; d = bitlen p - bitlen q
      in if 2 powi d \<le> \<bar>x\<bar> then d else d - 1)"

definition round_even :: "rat \<Rightarrow> int" where
  "round_even y =
     (let f = \<lfloor>y\<rfloor>; r = y - of_int f
      in if r < 1 / 2 then f else if 1 / 2 < r then f + 1 else if even f then f else f + 1)"

definition fl :: "rat \<Rightarrow> rat" where
  "fl x = (if x = 0 then 0
           else let u = 2 powi (binexp x - 52) in of_int (round_even (x / u)) * u)"

definition fdiv :: "rat \<Rightarrow> rat \<Rightarrow> rat" where
  "fdiv a b = fl (a / b)"

definition fmul :: "rat \<Rightarrow> rat \<Rightarrow> rat" where
  "fmul a b = fl (a * b)"

definition fsub :: "rat \<Rightarrow> rat \<Rightarrow> rat" where
  "fsub a b = fl (a - b)"

text \<open>\<^verbatim>\<open>Math.round\<close>: the nearest integer, a tie going up.\<close>

definition js_round :: "rat \<Rightarrow> int" where
  "js_round x = \<lfloor>x + 1 / 2\<rfloor>"

text \<open>The micro sign U+00B5, as the two bytes of its UTF-8 encoding.\<close>

definition micro :: string where
  "micro = [CHR 0xC2, CHR 0xB5]"

section \<open>LineProfilerDecorator: \<^verbatim>\<open>formatDuration\<close>\<close>

definition formatDuration :: "rat \<Rightarrow> rat \<Rightarrow> string" where
  "formatDuration clocksPerSec clockTicks =
     (let seconds = fdiv clockTicks (if clocksPerSec = 0 then 1 else clocksPerSec);
          ms = fmul seconds 1000;
          us = fmul seconds 1000000
      in if seconds \<ge> 1 then
           (let wholeS = \<lfloor>seconds\<rfloor>;
                remainMs = js_round (fmul (fsub seconds (of_int wholeS)) 1000)
            in if remainMs > 0 then show_int wholeS @ ''s '' @ show_int remainMs @ ''ms''
               else show_int wholeS @ ''s'')
         else if ms \<ge> 1 then
           (let wholeMs = \<lfloor>ms\<rfloor>;
                remainUs = js_round (fmul (fsub ms (of_int wholeMs)) 1000)
            in if remainUs > 0 then show_int wholeMs @ ''ms '' @ show_int remainUs @ micro @ ''s''
               else show_int wholeMs @ ''ms'')
         else show_int (js_round us) @ micro @ ''s'')"

text \<open>
  The formatter as the specification words it: the components of the duration, the most
  significant first, each a number with its unit; a second component is given only when it
  rounds to something other than zero. The text joins the components with a blank.
\<close>

definition duration_components :: "rat \<Rightarrow> rat \<Rightarrow> (int \<times> string) list" where
  "duration_components ticks clocksPerSec =
     (let seconds = fdiv ticks clocksPerSec;
          milliseconds = fmul seconds 1000;
          microseconds = fmul seconds 1000000
      in if seconds \<ge> 1 then
           (\<lfloor>seconds\<rfloor>, ''s'') #
           (let r = js_round (fmul (fsub seconds (of_int \<lfloor>seconds\<rfloor>)) 1000)
            in if r \<noteq> 0 then [(r, ''ms'')] else [])
         else if milliseconds \<ge> 1 then
           (\<lfloor>milliseconds\<rfloor>, ''ms'') #
           (let r = js_round (fmul (fsub milliseconds (of_int \<lfloor>milliseconds\<rfloor>)) 1000)
            in if r \<noteq> 0 then [(r, micro @ ''s'')] else [])
         else [(js_round microseconds, micro @ ''s'')])"

definition render_components :: "(int \<times> string) list \<Rightarrow> string" where
  "render_components cs = joinWith '' '' (map (\<lambda>(n, u). show_int n @ u) cs)"

section \<open>LineProfilerDecorator: \<^verbatim>\<open>applyToEditor\<close>\<close>

text \<open>
  A profile record \<^verbatim>\<open>[line, hits, time]\<close>: the line is whatever integer the report holds;
  hits and clock ticks are counts, and sums of ticks are taken as exact (binary64 adds
  integers exactly below \<open>2\<^sup>5\<^sup>3\<close>).
\<close>

type_synonym ProfileRecord = "int \<times> nat \<times> nat"

text \<open>
  The decoration options handed to the editor. A position is a line counted from 0, in
  column 0; the constructor of \<^verbatim>\<open>vscode.Range\<close> throws for a negative line.
\<close>

datatype decoration =
    LineDecoration int string
  | PrefixDecoration int string string "string option"
  | PaddingDecoration nat

definition range_at :: "int \<Rightarrow> error + int" where
  "range_at line = (if line < 0 then Inl IllegalArgument else Inr line)"

text \<open>\<^verbatim>\<open>blockLevels.get(line) ?? { color: this.getBlockColors()[0], blockID: 0 }\<close>\<close>

definition blockInfoOf :: "(nat \<rightharpoonup> LineInfo) \<Rightarrow> int \<Rightarrow> LineInfo" where
  "blockInfoOf blockLevels line =
     (case (if line < 0 then None else blockLevels (nat line)) of
        Some info \<Rightarrow> info
      | None \<Rightarrow> \<lparr>color = Some (getBlockColors ! 0), blockID = Some 0\<rparr>)"

text \<open>The first loop: the time of each record is added to the total of its block.\<close>

definition addBlockTime ::
  "(nat \<rightharpoonup> LineInfo) \<Rightarrow> ProfileRecord \<Rightarrow> (nat option \<rightharpoonup> nat) \<Rightarrow> (nat option \<rightharpoonup> nat)" where
  "addBlockTime blockLevels r blockTimes =
     (let (line, hits, time) = r;
          blockInfo = blockInfoOf blockLevels line;
          blockTime = (case blockTimes (blockID blockInfo) of Some t \<Rightarrow> t | None \<Rightarrow> 0)
      in blockTimes(blockID blockInfo \<mapsto> blockTime + time))"

text \<open>
  \<^verbatim>\<open>time / totalTime || 0\<close>. The total of a block is at least the time of each of its
  records, so a zero total divides zero by zero, which is \<^verbatim>\<open>NaN\<close> and becomes 0.
\<close>

definition ratioOf :: "nat \<Rightarrow> nat option \<Rightarrow> rat" where
  "ratioOf time totalTime =
     (case totalTime of
        None \<Rightarrow> 0
      | Some t \<Rightarrow> if t = 0 then 0 else fdiv (of_nat time) (of_nat t))"

definition percentOf :: "rat \<Rightarrow> int" where
  "percentOf ratio = js_round (fmul ratio 100)"

text \<open>
  \<^verbatim>\<open>generateBackgroundColor\<close>: \<^verbatim>\<open>(ratio * 0.8).toFixed(2)\<close> is the nearest number of
  hundredths, read back as a number and printed without trailing zeros.
\<close>

definition show_hundredths :: "nat \<Rightarrow> string" where
  "show_hundredths n =
     (if n mod 100 = 0 then show_nat (n div 100)
      else if n mod 10 = 0 then show_nat (n div 100) @ ''.'' @ show_nat (n mod 100 div 10)
      else show_nat (n div 100) @ ''.'' @ show_nat (n mod 100 div 10) @ show_nat (n mod 10))"

definition generateBackgroundColor :: "rat \<Rightarrow> string" where
  "generateBackgroundColor ratio =
     (let alpha = nat (js_round (fmul ratio (fl (8 / 10)) * 100))
      in ''hsla(210, 60%, 65%, '' @ show_hundredths alpha @ '')'')"

text \<open>The hover text; the dash U+2014 and the bullet U+2022 are in UTF-8.\<close>

definition createHoverMessage :: "rat \<Rightarrow> int \<Rightarrow> nat \<Rightarrow> nat \<Rightarrow> string" where
  "createHoverMessage clocksPerSec percent time hits =
     show_int percent @ ''% '' @ [CHR 0xE2, CHR 0x80, CHR 0x94] @ '' ''
       @ formatDuration clocksPerSec (of_nat time) @ '' '' @ [CHR 0xE2, CHR 0x80, CHR 0xA2] @ '' ''
       @ show_nat hits @ '' hits''"

definition createLineDecoration :: "int \<Rightarrow> string \<Rightarrow> error + decoration" where
  "createLineDecoration line hover =
     (case range_at (line - 1) of Inl e \<Rightarrow> Inl e | Inr l \<Rightarrow> Inr (LineDecoration l hover))"

definition padStart3 :: "string \<Rightarrow> string" where
  "padStart3 s = replicate (3 - length s) CHR '' '' @ s"

definition createPrefixDecoration :: "int \<Rightarrow> int \<Rightarrow> string option \<Rightarrow> error + decoration" where
  "createPrefixDecoration line percent blockColor =
     (let label = padStart3 (show_int percent) @ ''%'';
          textColor = (if percent = 0 then ''#888888'' else ''#f0f0f0'')
      in case range_at (line - 1) of
           Inl e \<Rightarrow> Inl e
         | Inr l \<Rightarrow> Inr (PrefixDecoration l label textColor blockColor))"

text \<open>
  The state of the second loop: the background options grouped by colour, in the order in
  which the colours first appear, the prefix options, and the covered lines.
\<close>

record decorations =
  colorToOptions :: "(string \<times> decoration list) list"
  prefixOptions :: "decoration list"
  coveredLines :: "int list"

fun pushOption :: "string \<Rightarrow> decoration \<Rightarrow> (string \<times> decoration list) list \<Rightarrow> (string \<times> decoration list) list" where
  "pushOption c d [] = [(c, [d])]"
| "pushOption c d ((c', ds) # rest) =
     (if c = c' then (c', ds @ [d]) # rest else (c', ds) # pushOption c d rest)"

definition decorateRecord ::
  "rat \<Rightarrow> (nat \<rightharpoonup> LineInfo) \<Rightarrow> (nat option \<rightharpoonup> nat) \<Rightarrow> decorations \<Rightarrow> ProfileRecord
     \<Rightarrow> error + decorations" where
  "decorateRecord clocksPerSec blockLevels blockTimes acc r =
     (let (line, hits, time) = r;
          blockInfo = blockInfoOf blockLevels line;
          ratio = ratioOf time (blockTimes (blockID blockInfo));
          percent = percentOf ratio;
          bg = generateBackgroundColor ratio;
          hover = createHoverMessage clocksPerSec percent time hits
      in case createLineDecoration line hover of
           Inl e \<Rightarrow> Inl e
         | Inr option \<Rightarrow>
             (case createPrefixDecoration line percent (color blockInfo) of
                Inl e \<Rightarrow> Inl e
              | Inr prefixOption \<Rightarrow>
                  Inr \<lparr>colorToOptions = pushOption bg option (colorToOptions acc),
                       prefixOptions = prefixOptions acc @ [prefixOption],
                       coveredLines = coveredLines acc @ [line - 1]\<rparr>))"

fun decorateRecords ::
  "rat \<Rightarrow> (nat \<rightharpoonup> LineInfo) \<Rightarrow> (nat option \<rightharpoonup> nat) \<Rightarrow> decorations \<Rightarrow> ProfileRecord list
     \<Rightarrow> error + decorations" where
  "decorateRecords clocksPerSec blockLevels blockTimes acc [] = Inr acc"
| "decorateRecords clocksPerSec blockLevels blockTimes acc (r # rs) =
     (case decorateRecord clocksPerSec blockLevels blockTimes acc r of
        Inl e \<Rightarrow> Inl e
      | Inr acc' \<Rightarrow> decorateRecords clocksPerSec blockLevels blockTimes acc' rs)"

text \<open>What \<^verbatim>\<open>applyDecorations\<close> hands to the editor.\<close>

record rendering =
  backgrounds :: "(string \<times> decoration list) list"
  prefixes :: "decoration list"

definition renderRecords ::
  "rat \<Rightarrow> (nat \<rightharpoonup> LineInfo) \<Rightarrow> nat \<Rightarrow> ProfileRecord list \<Rightarrow> error + rendering" where
  "renderRecords clocksPerSec blockLevels totalLines records =
     (let blockTimes = fold (addBlockTime blockLevels) records Map.empty
      in case decorateRecords clocksPerSec blockLevels blockTimes
                \<lparr>colorToOptions = [], prefixOptions = [], coveredLines = []\<rparr> records of
           Inl e \<Rightarrow> Inl e
         | Inr acc \<Rightarrow>
             Inr \<lparr>backgrounds = colorToOptions acc,
                  prefixes = prefixOptions acc
                    @ map PaddingDecoration
                        (filter (\<lambda>i. int i \<notin> set (coveredLines acc)) [0..<totalLines])\<rparr>)"

text \<open>
  The editor as the decorator sees it, and the decorator's own state: the report, the source
  root, the clock rate, and the line maps cached per document.
\<close>

record editor =
  fsPath :: string
  documentLines :: "string list"
  foldingRanges :: "FoldingRange list"

record profiler =
  data :: "string \<rightharpoonup> ProfileRecord list"
  sourceRoot :: string
  clocksPerSec :: rat
  editorToColors :: "string \<rightharpoonup> (nat \<rightharpoonup> LineInfo)"

text \<open>
  \<^verbatim>\<open>this.data[relPath]\<close> reads a plain object: a key of the report is found as the
  object's own property, and any other name is looked up in \<^verbatim>\<open>Object.prototype\<close>, where
  it finds a function (with the \<^verbatim>\<open>length\<close> listed here), the prototype itself under
  \<^verbatim>\<open>__proto__\<close>, or nothing.
\<close>

datatype property = Own "ProfileRecord list" | Function nat | Prototype | Undefined

definition objectPrototype :: "(string \<times> nat) list" where
  "objectPrototype =
     [(''constructor'', 1), (''hasOwnProperty'', 1), (''isPrototypeOf'', 1),
      (''propertyIsEnumerable'', 1), (''toLocaleString'', 0), (''toString'', 0), (''valueOf'', 0),
      (''__defineGetter__'', 2), (''__defineSetter__'', 2), (''__lookupGetter__'', 1),
      (''__lookupSetter__'', 1)]"

definition getProperty :: "(string \<rightharpoonup> ProfileRecord list) \<Rightarrow> string \<Rightarrow> property" where
  "getProperty obj k =
     (case obj k of
        Some rs \<Rightarrow> Own rs
      | None \<Rightarrow>
          (case map_of objectPrototype k of
             Some n \<Rightarrow> Function n
           | None \<Rightarrow> if k = ''__proto__'' then Prototype else Undefined))"

text \<open>
  \<^verbatim>\<open>applyToEditor\<close> returns the decorator with its cache as the call leaves it, and the
  decorations the editor shows afterwards; without records for the file these are none: the
  guard \<^verbatim>\<open>!records || records.length === 0\<close> stops at \<^verbatim>\<open>undefined\<close>, at an empty list
  and at a function of length 0. Any other inherited member passes the guard, and the first
  loop over it throws, since it cannot be iterated.
\<close>

definition applyToEditor :: "string \<Rightarrow> profiler \<Rightarrow> editor \<Rightarrow> error + profiler \<times> rendering" where
  "applyToEditor cwd this ed =
     (let relPath = normalize (relative cwd (sourceRoot this) (fsPath ed));
          cleared = Inr (this, \<lparr>backgrounds = [], prefixes = []\<rparr>);
          blockLevels = mapLinesToBlocks (editorToColors this (fsPath ed)) (documentLines ed)
                          (foldingRanges ed);
          notIterable = (case blockLevels of Inl e \<Rightarrow> Inl e | Inr m \<Rightarrow> Inl TypeError)
      in case getProperty (data this) relPath of
           Undefined \<Rightarrow> cleared
         | Function n \<Rightarrow> if n = 0 then cleared else notIterable
         | Prototype \<Rightarrow> notIterable
         | Own records \<Rightarrow>
             if records = [] then cleared
             else
               case blockLevels of
                 Inl e \<Rightarrow> Inl e
               | Inr m \<Rightarrow>
                   (case renderRecords (clocksPerSec this) m (length (documentLines ed)) records of
                      Inl e \<Rightarrow> Inl e
                    | Inr out \<Rightarrow>
                        Inr (this\<lparr>editorToColors := (editorToColors this)(fsPath ed \<mapsto> m)\<rparr>, out)))"

text \<open>A report for the twelve-line file of the nested example.\<close>

definition sample_profiler :: "ProfileRecord list \<Rightarrow> profiler" where
  "sample_profiler records =
     \<lparr>data = [''src/a.py'' \<mapsto> records], sourceRoot = ''/w'', clocksPerSec = 1000000,
      editorToColors = Map.empty\<rparr>"

definition sample_editor :: editor where
  "sample_editor = \<lparr>fsPath = ''/w/src/a.py'', documentLines = nested_lines,
                     foldingRanges = [(2, 10), (4, 6)]\<rparr>"

definition rendered :: "ProfileRecord list \<Rightarrow> error + rendering" where
  "rendered records = map_sum id snd (applyToEditor ''/'' (sample_profiler records) sample_editor)"

text \<open>The gutter labels of the records in that rendering, in the order of the records.\<close>

definition labels :: "ProfileRecord list \<Rightarrow> error + decoration list" where
  "labels records = map_sum id (\<lambda>out. take (length records) (prefixes out)) (rendered records)"

text \<open>
  The aggregate time of a scope, as the specification defines it: the sum of the times of all
  records whose line is assigned to the scope.
\<close>

definition scopeOf :: "(nat \<rightharpoonup> LineInfo) \<Rightarrow> ProfileRecord \<Rightarrow> nat option" where
  "scopeOf blockLevels r = (case r of (line, hits, time) \<Rightarrow> blockID (blockInfoOf blockLevels line))"

definition scopeTotal :: "(nat \<rightharpoonup> LineInfo) \<Rightarrow> ProfileRecord list \<Rightarrow> nat option \<Rightarrow> nat" where
  "scopeTotal blockLevels records scope =
     sum_list (map (\<lambda>(line, hits, time). time) (filter (\<lambda>r. scopeOf blockLevels r = scope) records))"

text \<open>The gutter label of a record, from its share of its scope's total.\<close>

definition prefixOf :: "(nat \<rightharpoonup> LineInfo) \<Rightarrow> ProfileRecord list \<Rightarrow> ProfileRecord \<Rightarrow> decoration" where
  "prefixOf blockLevels records r =
     (case r of (line, hits, time) \<Rightarrow>
        let tot = scopeTotal blockLevels records (scopeOf blockLevels r);
            ratio = (if tot = 0 then 0 else fdiv (of_nat time) (of_nat tot));
            percent = js_round (fmul ratio 100)
        in PrefixDecoration (line - 1) (padStart3 (show_int percent) @ ''%'')
             (if percent = 0 then ''#888888'' else ''#f0f0f0'')
             (color (blockInfoOf blockLevels line)))"

text \<open>The background entry of a record, and what the editor is given to show.\<close>

definition lineDecorationOf ::
  "rat \<Rightarrow> (nat \<rightharpoonup> LineInfo) \<Rightarrow> ProfileRecord list \<Rightarrow> ProfileRecord \<Rightarrow> decoration" where
  "lineDecorationOf cps blockLevels records r =
     (case r of (line, hits, time) \<Rightarrow>
        let tot = scopeTotal blockLevels records (scopeOf blockLevels r);
            ratio = (if tot = 0 then 0 else fdiv (of_nat time) (of_nat tot));
            percent = js_round (fmul ratio 100)
        in LineDecoration (line - 1) (createHoverMessage cps percent time hits))"

definition backgroundOf :: "(nat \<rightharpoonup> LineInfo) \<Rightarrow> ProfileRecord list \<Rightarrow> ProfileRecord \<Rightarrow> string" where
  "backgroundOf blockLevels records r =
     (case r of (line, hits, time) \<Rightarrow>
        let tot = scopeTotal blockLevels records (scopeOf blockLevels r)
        in generateBackgroundColor (if tot = 0 then 0 else fdiv (of_nat time) (of_nat tot)))"

definition shown :: "(string \<times> decoration list) list \<Rightarrow> decoration \<Rightarrow> bool" where
  "shown groups d = (\<exists>(c, ds)\<in>set groups. d \<in> set ds)"

text \<open>
  The specification's rule for a label. The scope that owns a line and the colour of that
  scope are given as functions of the line, counted from 1 as in the report: by the line
  map, with the module scope 0 and the first colour for a line without entry, or by the
  lexical attribution of the function ranges. The total of a scope is the sum of the times of
  the records on its lines; the ratio of a record is its time over the total of its scope,
  and 0 when that total is 0; the label shows the ratio times 100, rounded.
\<close>

definition ownerIn :: "(nat \<rightharpoonup> LineInfo) \<Rightarrow> int \<Rightarrow> nat option" where
  "ownerIn blockLevels line =
     (case (if line < 0 then None else blockLevels (nat line)) of
        None \<Rightarrow> Some 0
      | Some info \<Rightarrow> blockID info)"

definition colourIn :: "(nat \<rightharpoonup> LineInfo) \<Rightarrow> int \<Rightarrow> string option" where
  "colourIn blockLevels line =
     (case (if line < 0 then None else blockLevels (nat line)) of
        None \<Rightarrow> Some (getBlockColors ! 0)
      | Some info \<Rightarrow> color info)"

definition lexicalOwner :: "FoldingRange list \<Rightarrow> int \<Rightarrow> nat option" where
  "lexicalOwner rs line = Some (lexicalScope rs (nat (line - 1)))"

definition lexicalColour :: "FoldingRange list \<Rightarrow> int \<Rightarrow> string option" where
  "lexicalColour rs line = Some (getBlockColors ! (lexicalDepth rs (nat (line - 1)) mod 5))"

definition totalOf :: "(int \<Rightarrow> nat option) \<Rightarrow> ProfileRecord list \<Rightarrow> nat option \<Rightarrow> nat" where
  "totalOf owner records scope =
     sum_list (map (\<lambda>(line, hits, time). time)
                 (filter (\<lambda>(line, hits, time). owner line = scope) records))"

definition percentIn :: "(int \<Rightarrow> nat option) \<Rightarrow> ProfileRecord list \<Rightarrow> ProfileRecord \<Rightarrow> int" where
  "percentIn owner records r =
     (case r of (line, hits, time) \<Rightarrow>
        let tot = totalOf owner records (owner line);
            ratio = (if tot = 0 then 0 else fdiv (of_nat time) (of_nat tot))
        in js_round (fmul ratio 100))"

definition labelOf ::
  "(int \<Rightarrow> nat option) \<Rightarrow> (int \<Rightarrow> string option) \<Rightarrow> ProfileRecord list \<Rightarrow> ProfileRecord
     \<Rightarrow> decoration" where
  "labelOf owner colour records r =
     (let percent = percentIn owner records r
      in PrefixDecoration (fst r - 1) (padStart3 (show_int percent) @ ''%'')
           (if percent = 0 then ''#888888'' else ''#f0f0f0'') (colour (fst r)))"

text \<open>
  Six records in three scopes of the nested example: lines 1 and 3 in the module, 4 and 5
  in the outer function, 6 and 7 in the inner one.
\<close>

definition scoped_records :: "ProfileRecord list" where
  "scoped_records = [(1, 1, 100), (3, 1, 300), (4, 1, 30), (5, 1, 10), (6, 2, 60), (7, 1, 20)]"

chapter \<open>Properties\<close>

section \<open>Paths in normal form\<close>

lemma split_sep_nonempty: "split_sep s \<noteq> []"
  by (induction s) auto

lemma split_sep_append: "split_sep (x @ CHR ''/'' # y) = split_sep x @ split_sep y"
proof (induction x)
  case Nil
  show ?case by simp
next
  case (Cons c x)
  then show ?case using split_sep_nonempty [of x] by (cases "split_sep x") auto
qed

lemma split_sep_plain: "CHR ''/'' \<notin> set s \<Longrightarrow> split_sep s = [s]"
  by (induction s) auto

lemma segments_append: "segments (x @ CHR ''/'' # y) = segments x @ segments y"
  by (simp add: segments_def split_sep_append)

lemma segments_plain: "CHR ''/'' \<notin> set s \<Longrightarrow> s \<noteq> [] \<Longrightarrow> segments s = [s]"
  by (simp add: segments_def split_sep_plain)

lemma segments_Nil: "segments [] = []"
  by (simp add: segments_def)

lemma segments_joinSegs: "\<forall>s\<in>set ss. proper s \<Longrightarrow> segments (joinSegs ss) = ss"
proof (induction ss rule: joinSegs.induct)
  case 1
  show ?case by (simp add: segments_Nil)
next
  case (2 s)
  then show ?case by (simp add: segments_plain proper_def)
next
  case (3 s t ss)
  then show ?case by (simp add: segments_append segments_plain proper_def)
qed

lemma segments_absolute_of: "\<forall>s\<in>set ss. proper s \<Longrightarrow> segments (absolute_of ss) = ss"
  using segments_append [of "[]" "joinSegs ss"]
  by (simp add: absolute_of_def segments_joinSegs segments_Nil)

lemma normalizeSegs_filter:
  "normalizeSegs a res (filter (\<lambda>s. s \<noteq> []) ss) = normalizeSegs a res ss"
  by (induction a res ss rule: normalizeSegs.induct) (auto split: list.splits)

lemma normalizeSegs_proper:
  "\<forall>s\<in>set ss. proper s \<Longrightarrow> normalizeSegs a res ss = rev res @ ss"
  by (induction ss arbitrary: res) (auto simp: proper_def)

lemma normalizeString_segments:
  "normalizeString p a = joinSegs (normalizeSegs a [] (segments p))"
  by (simp add: normalizeString_def segments_def normalizeSegs_filter)

lemma joinSegs_Cons_prefix: "prefix s (joinSegs (s # ss))"
  by (cases ss) auto

lemma joinSegs_eq_Nil: "\<forall>s\<in>set ss. proper s \<Longrightarrow> joinSegs ss = [] \<longleftrightarrow> ss = []"
  by (induction ss rule: joinSegs.induct) (auto simp: proper_def)

lemma isAbsolute_hd: "isAbsolute p \<longleftrightarrow> p \<noteq> [] \<and> hd p = CHR ''/''"
  by (cases p) (auto simp: isAbsolute_def)

lemma proper_hd: "proper s \<Longrightarrow> hd s \<noteq> CHR ''/''"
  by (cases s) (auto simp: proper_def)

lemma joinSegs_not_absolute: "\<forall>s\<in>set ss. proper s \<Longrightarrow> \<not> isAbsolute (joinSegs ss)"
proof (induction ss rule: joinSegs.induct)
  case 1
  show ?case by (simp add: isAbsolute_def)
next
  case (2 s)
  then show ?case by (simp add: isAbsolute_hd proper_hd)
next
  case (3 s t ss)
  then have "proper s" by simp
  then show ?case by (simp add: isAbsolute_hd proper_hd hd_append) (simp add: proper_def)
qed

lemma joinSegs_last: "\<forall>s\<in>set ss. proper s \<Longrightarrow> ss \<noteq> [] \<Longrightarrow> last (joinSegs ss) \<noteq> CHR ''/''"
proof (induction ss rule: joinSegs.induct)
  case 1
  then show ?case by simp
next
  case (2 s)
  then show ?case by (auto simp: proper_def) (metis last_in_set)
next
  case (3 s t ss)
  then have "joinSegs (t # ss) \<noteq> []" using joinSegs_eq_Nil [of "t # ss"] by simp
  with 3 show ?case by simp
qed

lemma resolve_absolute_of:
  assumes "\<forall>s\<in>set ss. proper s"
  shows "resolve cwd (absolute_of ss) = absolute_of ss"
proof -
  have seg: "segments (absolute_of ss @ ''/'') = ss"
    using segments_append [of "absolute_of ss" "[]"] assms
    by (simp add: segments_absolute_of segments_Nil)
  have abs: "isAbsolute (absolute_of ss @ ''/'')" "absolute_of ss \<noteq> []"
    by (simp_all add: isAbsolute_def absolute_of_def)
  show ?thesis
    using assms abs
    by (simp add: resolve_def normalizeString_segments seg normalizeSegs_proper)
       (simp add: absolute_of_def)
qed

lemma strip_common_under: "strip_common rs (rs @ qs) = ([], qs)"
  by (induction rs) simp_all

lemma strip_common_not_prefix:
  "\<not> prefix rs ps \<Longrightarrow> \<exists>f fs ts. strip_common rs ps = (f # fs, ts)"
  by (induction rs ps rule: strip_common.induct) auto

lemma absolute_of_inject:
  assumes "\<forall>s\<in>set rs. proper s" "\<forall>s\<in>set ps. proper s" "absolute_of rs = absolute_of ps"
  shows "rs = ps"
proof -
  have "rs = segments (absolute_of rs)" using assms(1) by (simp add: segments_absolute_of)
  also have "\<dots> = segments (absolute_of ps)" using assms(3) by simp
  also have "\<dots> = ps" using assms(2) by (simp add: segments_absolute_of)
  finally show ?thesis .
qed

lemma relative_normal:
  assumes rs: "\<forall>s\<in>set rs. proper s" and ps: "\<forall>s\<in>set ps. proper s"
  shows "relative cwd (absolute_of rs) (absolute_of ps) =
           (if rs = ps then []
            else case strip_common rs ps of
                   (fromRest, toRest) \<Rightarrow> joinSegs (replicate (length fromRest) ''..'' @ toRest))"
proof (cases "rs = ps")
  case True
  then show ?thesis by (simp add: relative_def)
next
  case False
  with rs ps have "absolute_of rs \<noteq> absolute_of ps"
    using absolute_of_inject by blast
  with False show ?thesis
    by (simp add: relative_def resolve_absolute_of rs ps segments_absolute_of)
qed

lemma relative_under:
  assumes rs: "\<forall>s\<in>set rs. proper s" and qs: "\<forall>s\<in>set qs. proper s"
  shows "relative cwd (absolute_of rs) (absolute_of (rs @ qs)) = joinSegs qs"
proof -
  have "\<forall>s\<in>set (rs @ qs). proper s" using rs qs by auto
  then show ?thesis
    using relative_normal [OF rs, of "rs @ qs" cwd] by (auto simp: strip_common_under)
qed

lemma joinSegs_append:
  "rs \<noteq> [] \<Longrightarrow> qs \<noteq> [] \<Longrightarrow> joinSegs (rs @ qs) = joinSegs rs @ CHR ''/'' # joinSegs qs"
proof (induction rs rule: joinSegs.induct)
  case 1
  then show ?case by simp
next
  case (2 s)
  then show ?case by (cases qs) auto
next
  case (3 s t ss)
  then show ?case by simp
qed

lemma join_under:
  assumes rs: "\<forall>s\<in>set rs. proper s" and qs: "\<forall>s\<in>set qs. proper s"
  shows "join [absolute_of rs, joinSegs qs] = absolute_of (rs @ qs)"
proof (cases "qs = []")
  case True
  have "rs \<noteq> [] \<Longrightarrow> last (joinSegs rs) \<noteq> CHR ''/''"
    using joinSegs_last [OF rs] by simp
  moreover have "segments (absolute_of rs) = rs"
    by (rule segments_absolute_of [OF rs])
  ultimately show ?thesis
    using True rs joinSegs_eq_Nil [OF rs]
    by (auto simp: join_def normalize_def normalizeString_segments normalizeSegs_proper
                   isAbsolute_def absolute_of_def Let_def)
next
  case False
  define p where "p = absolute_of rs @ CHR ''/'' # joinSegs qs"
  have all: "\<forall>s\<in>set (rs @ qs). proper s" using rs qs by auto
  have nz: "joinSegs qs \<noteq> []" using False joinSegs_eq_Nil [OF qs] by simp
  have seg: "segments p = rs @ qs"
    by (simp add: p_def segments_append segments_absolute_of rs segments_joinSegs qs)
  have lst: "last p \<noteq> CHR ''/''"
    using joinSegs_last [OF qs False] nz by (simp add: p_def)
  have abs: "isAbsolute p" by (simp add: p_def isAbsolute_def absolute_of_def)
  have ne: "joinSegs (rs @ qs) \<noteq> []"
    using joinSegs_eq_Nil [OF all] False by simp
  have ns: "normalizeString p False = joinSegs (rs @ qs)"
    using all by (simp add: normalizeString_segments seg normalizeSegs_proper)
  have "p \<noteq> []" by (simp add: p_def)
  then have "normalize p = absolute_of (rs @ qs)"
    using lst abs ne by (simp add: normalize_def Let_def ns absolute_of_def)
  then show ?thesis
    using nz by (simp add: join_def absolute_of_def p_def)
qed

lemma absolute_of_prefix:
  "prefix (absolute_of rs) (absolute_of (rs @ qs))"
proof (cases "rs = [] \<or> qs = []")
  case True
  then show ?thesis by (auto simp: absolute_of_def)
next
  case False
  then show ?thesis by (simp add: absolute_of_def joinSegs_append)
qed

section \<open>Path rewriting\<close>

lemma relative_resolved_under:
  assumes rs: "\<forall>s\<in>set rs. proper s" and qs: "\<forall>s\<in>set qs. proper s"
    and p: "resolve cwd p = absolute_of (rs @ qs)"
  shows "relative cwd (absolute_of rs) p = joinSegs qs"
proof (cases "absolute_of rs = p")
  case True
  have "resolve cwd (absolute_of rs) = absolute_of (rs @ qs)"
    unfolding True by (rule p)
  then have "absolute_of rs = absolute_of (rs @ qs)"
    by (simp only: resolve_absolute_of [OF rs])
  moreover have "\<forall>s\<in>set (rs @ qs). proper s" using rs qs by auto
  ultimately have "rs = rs @ qs" using rs absolute_of_inject by blast
  then have "qs = []" by simp
  with True show ?thesis by (simp add: relative_def)
next
  case False
  have all: "\<forall>s\<in>set (rs @ qs). proper s" using rs qs by auto
  show ?thesis
  proof (cases "qs = []")
    case True
    with False p show ?thesis by (simp add: relative_def resolve_absolute_of rs)
  next
    case ne: False
    have "rs \<noteq> rs @ qs" using ne by simp
    then have "absolute_of rs \<noteq> absolute_of (rs @ qs)"
      using absolute_of_inject [OF rs all] by blast
    with False show ?thesis
      by (simp add: relative_def resolve_absolute_of rs p segments_absolute_of all
                    strip_common_under)
  qed
qed

text \<open>
  Claim C3 as stated fails: the round trip returns a path in normal form, so a path under
  the root \<^verbatim>\<open>/w\<close> that ends in a separator, or holds a \<^verbatim>\<open>.\<close> segment, does not come
  back as it was.
\<close>

theorem roundtrip_not_normal_counterexample:
  "toAbsolutePath ''/w'' (toRelativePath ''/'' ''/w'' ''/w/a/'') = ''/w/a''
   \<and> toAbsolutePath ''/w'' (toRelativePath ''/'' ''/w'' ''/w/a/'') \<noteq> ''/w/a/''
   \<and> toAbsolutePath ''/w'' (toRelativePath ''/'' ''/w'' ''/w/./a.py'') = ''/w/a.py''"
  by (simp add: toAbsolutePath_def toRelativePath_def relative_def resolve_def isAbsolute_def
                normalizeString_def segments_def join_def normalize_def)

text \<open>
  Claim C3, amended. For a root in normal form and every path \<open>p\<close> lying under it,
  \<^verbatim>\<open>toAbsolutePath(toRelativePath(p))\<close> is the normal form of \<open>p\<close>, the path that
  \<^verbatim>\<open>path.resolve\<close> makes of it; it is \<open>p\<close> again whenever \<open>p\<close> is in normal form, being
  the root followed by the segments \<open>qs\<close>, possibly none. The latter holds for the earlier
  rewriter guarded by \<^verbatim>\<open>startsWith\<close> as well.
\<close>

theorem roundtrip_under_root:
  assumes "\<forall>s\<in>set rs. proper s" and "\<forall>s\<in>set qs. proper s"
  shows "toAbsolutePath (absolute_of rs)
           (toRelativePath cwd (absolute_of rs) (absolute_of (rs @ qs))) = absolute_of (rs @ qs)
       \<and> toAbsolutePath (absolute_of rs)
           (toRelativePath_workspace cwd (absolute_of rs) (absolute_of (rs @ qs))) = absolute_of (rs @ qs)
       \<and> (resolve cwd p = absolute_of (rs @ qs) \<longrightarrow>
            toAbsolutePath (absolute_of rs) (toRelativePath cwd (absolute_of rs) p) = resolve cwd p)"
proof (intro conjI impI)
  show "toAbsolutePath (absolute_of rs)
      (toRelativePath cwd (absolute_of rs) (absolute_of (rs @ qs))) = absolute_of (rs @ qs)"
    using assms
    by (simp add: toAbsolutePath_def toRelativePath_def relative_under joinSegs_not_absolute
                  join_under)
  show "toAbsolutePath (absolute_of rs)
      (toRelativePath_workspace cwd (absolute_of rs) (absolute_of (rs @ qs))) = absolute_of (rs @ qs)"
    using assms
    by (simp add: toAbsolutePath_def toRelativePath_workspace_def absolute_of_prefix
                  relative_under joinSegs_not_absolute join_under)
next
  assume p: "resolve cwd p = absolute_of (rs @ qs)"
  have "relative cwd (absolute_of rs) p = joinSegs qs"
    using assms p by (rule relative_resolved_under)
  then have "toAbsolutePath (absolute_of rs) (toRelativePath cwd (absolute_of rs) p)
      = absolute_of (rs @ qs)"
    using assms by (simp add: toAbsolutePath_def toRelativePath_def joinSegs_not_absolute join_under)
  then show "toAbsolutePath (absolute_of rs) (toRelativePath cwd (absolute_of rs) p) = resolve cwd p"
    by (simp only: p)
qed

text \<open>
  The round trip at \<^verbatim>\<open>/home/u/proj/src/main.py\<close> under \<^verbatim>\<open>/home/u/proj\<close>, and at another
  spelling of \<^verbatim>\<open>/w/a\<close> under \<^verbatim>\<open>/w\<close>.
\<close>

theorem roundtrip_under_root_witness:
  "toAbsolutePath ''/home/u/proj''
     (toRelativePath ''/'' ''/home/u/proj'' ''/home/u/proj/src/main.py'') = ''/home/u/proj/src/main.py''
   \<and> toAbsolutePath ''/w'' (toRelativePath ''/'' ''/w'' ''/w/./a/'') = ''/w/a''"
proof -
  have r: "resolve ''/'' ''/w/./a/'' = ''/w/a''"
    by (simp add: resolve_def isAbsolute_def normalizeString_def)
  from roundtrip_under_root [of "[''home'', ''u'', ''proj'']" "[''src'', ''main.py'']" "''/''"]
  have a: "toAbsolutePath ''/home/u/proj''
     (toRelativePath ''/'' ''/home/u/proj'' ''/home/u/proj/src/main.py'') = ''/home/u/proj/src/main.py''"
    by (simp add: proper_def absolute_of_def)
  from roundtrip_under_root [of "[''w'']" "[''a'']" "''/''" "''/w/./a/''"] r
  have b: "toAbsolutePath ''/w'' (toRelativePath ''/'' ''/w'' ''/w/./a/'') = ''/w/a''"
    by (simp add: proper_def absolute_of_def)
  from a b show ?thesis by (rule conjI)
qed

text \<open>
  Claim C2 as stated fails: the current \<^verbatim>\<open>toRelativePath\<close> has no test for the root, and a
  path outside the root \<^verbatim>\<open>/a/b\<close> is not returned unchanged.
\<close>

theorem toRelativePath_outside_root_counterexample:
  "toRelativePath ''/'' ''/a/b'' ''/c/d.py'' = ''../../c/d.py''
   \<and> toRelativePath ''/'' ''/a/b'' ''/c/d.py'' \<noteq> ''/c/d.py''"
  by (simp add: toRelativePath_def relative_def resolve_def isAbsolute_def normalizeString_def
                segments_def)

text \<open>
  Claim C2, amended. For a root and an absolute path in normal form, \<^verbatim>\<open>toRelativePath\<close>
  returns the root-relative path when the path lies under the root, and otherwise the
  relative path that first climbs out of the root: it begins with \<^verbatim>\<open>..\<close> and is never the
  argument unchanged.
\<close>

theorem toRelativePath_relative_to_root:
  assumes rs: "\<forall>s\<in>set rs. proper s" and ps: "\<forall>s\<in>set ps. proper s"
  shows "(prefix rs ps \<longrightarrow>
            toRelativePath cwd (absolute_of rs) (absolute_of ps) = joinSegs (drop (length rs) ps))
       \<and> (\<not> prefix rs ps \<longrightarrow>
            prefix ''..'' (toRelativePath cwd (absolute_of rs) (absolute_of ps))
          \<and> toRelativePath cwd (absolute_of rs) (absolute_of ps) \<noteq> absolute_of ps)"
proof (intro conjI impI)
  assume "prefix rs ps"
  then obtain qs where ps_eq: "ps = rs @ qs" by (auto simp: prefix_def)
  with ps have "\<forall>s\<in>set qs. proper s" by simp
  then show "toRelativePath cwd (absolute_of rs) (absolute_of ps) = joinSegs (drop (length rs) ps)"
    by (simp add: toRelativePath_def ps_eq relative_under rs)
next
  assume np: "\<not> prefix rs ps"
  then obtain f fs ts where sc: "strip_common rs ps = (f # fs, ts)"
    using strip_common_not_prefix by blast
  from np have "rs \<noteq> ps" by auto
  then have rel: "toRelativePath cwd (absolute_of rs) (absolute_of ps) =
      joinSegs (''..'' # replicate (length fs) ''..'' @ ts)"
    by (simp add: toRelativePath_def relative_normal [OF rs ps] sc)
  show "prefix ''..'' (toRelativePath cwd (absolute_of rs) (absolute_of ps))"
    unfolding rel by (rule joinSegs_Cons_prefix)
  then show "toRelativePath cwd (absolute_of rs) (absolute_of ps) \<noteq> absolute_of ps"
    by (auto simp: absolute_of_def prefix_def)
qed

text \<open>Both cases at the root \<^verbatim>\<open>/a/b\<close>: a path under it, and a sibling directory \<^verbatim>\<open>/a/bc\<close>.\<close>

theorem toRelativePath_relative_to_root_witness:
  "toRelativePath ''/'' ''/a/b'' ''/a/b/c/d.py'' = ''c/d.py''
   \<and> prefix ''..'' (toRelativePath ''/'' ''/a/b'' ''/a/bc/d.py'')"
  using toRelativePath_relative_to_root [of "[''a'', ''b'']" "[''a'', ''b'', ''c'', ''d.py'']" "''/''"]
        toRelativePath_relative_to_root [of "[''a'', ''b'']" "[''a'', ''bc'', ''d.py'']" "''/''"]
  by (simp add: proper_def absolute_of_def)

text \<open>
  The earlier rewriter returns its argument unchanged exactly when the workspace folder is
  not a string prefix of it; a sibling directory whose name begins with the folder's name
  passes that test and is rewritten.
\<close>

lemma toRelativePath_workspace_guard:
  "\<not> prefix workspaceFolder absPath \<Longrightarrow>
     toRelativePath_workspace cwd workspaceFolder absPath = absPath"
  by (simp add: toRelativePath_workspace_def)

lemma toRelativePath_workspace_sibling:
  "toRelativePath_workspace ''/'' ''/a/b'' ''/a/bc/d.py'' = ''../bc/d.py''"
  by (simp add: toRelativePath_workspace_def relative_def resolve_def isAbsolute_def
                normalizeString_def segments_def)

section \<open>The relay\<close>

lemma map_of_set_field: "map_of (set_field k v fs) = (map_of fs)(k \<mapsto> v)"
  by (induction fs) auto











lemma rewrite_source_ok: "path_ok h \<Longrightarrow> \<exists>h'. rewrite_source sf h = Inr h'"
  by (auto simp: rewrite_source_def path_ok_def Let_def split: option.splits json.splits)



lemma rewrite_frames_ok:
  "list_all (\<lambda>frame. frame \<noteq> JNull \<and> path_ok frame) fs \<Longrightarrow> \<exists>fs'. rewrite_frames sf fs = Inr fs'"
proof (induction fs)
  case Nil
  show ?case by simp
next
  case (Cons f fs)
  then obtain f' fs' where "rewrite_source sf f = Inr f'" "rewrite_frames sf fs = Inr fs'"
    using rewrite_source_ok [of f sf] by auto
  with Cons.prems show ?case by simp
qed



lemma get_set_source_path:
  "k \<noteq> ''source'' \<Longrightarrow> get (set_source_path h v) k = get h k"
  by (cases h) (auto simp: set_source_path_def map_of_set_field split: option.splits)


lemma rewrite_source_get:
  "rewrite_source sf h = Inr h' \<Longrightarrow> k \<noteq> ''source'' \<Longrightarrow> get h' k = get h k"
  by (auto simp: rewrite_source_def Let_def get_set_source_path
           split: if_splits option.splits json.splits)





lemma rewrite_body_ok:
  assumes "path_ok b"
    and "list_all (\<lambda>frame. frame \<noteq> JNull \<and> path_ok frame)
           (case get b ''stackFrames'' of Some (JArr frames) \<Rightarrow> frames | _ \<Rightarrow> [])"
  shows "\<exists>b'. rewrite_body sf b = Inr b'"
proof -
  obtain b1 where b1: "rewrite_source sf b = Inr b1"
    using rewrite_source_ok [OF assms(1)] by blast
  have gs: "get b1 ''stackFrames'' = get b ''stackFrames''"
    using rewrite_source_get [OF b1] by simp
  show ?thesis
  proof (cases "\<exists>frames. get b ''stackFrames'' = Some (JArr frames)")
    case False
    with b1 gs show ?thesis
      by (auto simp: rewrite_body_def split: option.splits json.splits)
  next
    case True
    then obtain frames where fr: "get b ''stackFrames'' = Some (JArr frames)" by blast
    with assms(2) obtain frames' where "rewrite_frames sf frames = Inr frames'"
      using rewrite_frames_ok [of frames sf] by auto
    with b1 gs fr show ?thesis by (simp add: rewrite_body_def)
  qed
qed




lemma onDidSendMessage_ok:
  assumes "inbound_ok m"
  shows "\<exists>m' ns. onDidSendMessage sf m = Inr (m', ns)"
proof (cases "\<exists>b. get m ''body'' = Some b \<and> b \<noteq> JNull")
  case False
  with assms show ?thesis
    by (cases m) (auto simp: onDidSendMessage_def inbound_ok_def split: option.splits)
next
  case True
  then obtain b where b: "get m ''body'' = Some b" "b \<noteq> JNull" by blast
  then have "opt_get (Some b) ''stackFrames'' = get b ''stackFrames''"
    by (cases b) auto
  with assms b obtain b' where "rewrite_body sf b = Inr b'"
    using rewrite_body_ok [of b sf] by (auto simp: inbound_ok_def body_of_def frames_of_def)
  with assms b show ?thesis
    by (cases m) (auto simp: onDidSendMessage_def inbound_ok_def)
qed

lemma opt_get_Some: "v \<noteq> JNull \<Longrightarrow> opt_get (Some v) k = get v k"
  by (cases v) auto




lemma onWillReceiveMessage_ok:
  assumes "outbound_ok m"
  shows "\<exists>m'. onWillReceiveMessage cwd sf m = Inr m'"
proof (cases "get m ''arguments''")
  case None
  with assms show ?thesis by (simp add: onWillReceiveMessage_def outbound_ok_def)
next
  case (Some args)
  show ?thesis
  proof (cases "args = JNull")
    case True
    with Some assms show ?thesis
      by (simp add: onWillReceiveMessage_def outbound_ok_def)
  next
    case False
    with Some assms show ?thesis
      by (auto simp: onWillReceiveMessage_def outbound_ok_def args_of_def path_ok_def Let_def
                     opt_get_Some
               split: option.splits json.splits)
  qed
qed


lemma rewrite_source_fails: "\<not> path_ok h \<Longrightarrow> rewrite_source sf h = Inl TypeError"
  by (auto simp: rewrite_source_def path_ok_def Let_def split: option.splits json.splits)

lemma rewrite_source_error: "rewrite_source sf h = Inl e \<Longrightarrow> e = TypeError"
  by (auto simp: rewrite_source_def Let_def split: option.splits json.splits if_splits)

lemma rewrite_frames_error: "rewrite_frames sf fs = Inl e \<Longrightarrow> e = TypeError"
  by (induction fs) (auto split: if_splits sum.splits dest: rewrite_source_error)

lemma rewrite_frames_fails:
  "\<not> list_all (\<lambda>frame. frame \<noteq> JNull \<and> path_ok frame) fs \<Longrightarrow> rewrite_frames sf fs = Inl TypeError"
proof (induction fs)
  case Nil
  then show ?case by simp
next
  case (Cons f fs)
  show ?case
  proof (cases "f \<noteq> JNull \<and> path_ok f")
    case False
    then show ?thesis by (auto simp: rewrite_source_fails)
  next
    case True
    with Cons have "rewrite_frames sf fs = Inl TypeError" by simp
    with True show ?thesis
      by (auto split: sum.splits dest: rewrite_source_error)
  qed
qed

lemma rewrite_body_fails:
  assumes "\<not> (path_ok b \<and> list_all (\<lambda>frame. frame \<noteq> JNull \<and> path_ok frame)
           (case get b ''stackFrames'' of Some (JArr frames) \<Rightarrow> frames | _ \<Rightarrow> []))"
  shows "rewrite_body sf b = Inl TypeError"
proof (cases "path_ok b")
  case False
  then show ?thesis by (simp add: rewrite_body_def rewrite_source_fails)
next
  case True
  then obtain b1 where b1: "rewrite_source sf b = Inr b1"
    using rewrite_source_ok by blast
  have gs: "get b1 ''stackFrames'' = get b ''stackFrames''"
    using rewrite_source_get [OF b1] by simp
  from True assms obtain frames where fr: "get b ''stackFrames'' = Some (JArr frames)"
    and bad: "\<not> list_all (\<lambda>frame. frame \<noteq> JNull \<and> path_ok frame) frames"
    by (auto split: option.splits json.splits)
  from bad have "rewrite_frames sf frames = Inl TypeError" by (rule rewrite_frames_fails)
  with b1 gs fr show ?thesis by (simp add: rewrite_body_def)
qed

lemma path_ok_JNull: "path_ok JNull"
  by (simp add: path_ok_def)

lemma onDidSendMessage_fails:
  assumes "\<not> inbound_ok m"
  shows "onDidSendMessage sf m = Inl TypeError"
proof (cases "m = JNull")
  case True
  then show ?thesis by (simp add: onDidSendMessage_def)
next
  case False
  show ?thesis
  proof (cases "\<exists>b. get m ''body'' = Some b \<and> b \<noteq> JNull")
    case no: False
    with False have "inbound_ok m"
      by (auto simp: inbound_ok_def body_of_def frames_of_def path_ok_JNull split: option.splits)
    with assms show ?thesis by simp
  next
    case True
    then obtain b where b: "get m ''body'' = Some b" "b \<noteq> JNull" by blast
    then have "opt_get (Some b) ''stackFrames'' = get b ''stackFrames''"
      by (cases b) auto
    with assms b False have "rewrite_body sf b = Inl TypeError"
      by (intro rewrite_body_fails) (auto simp: inbound_ok_def body_of_def frames_of_def)
    with b False show ?thesis
      by (simp add: onDidSendMessage_def opt_get_Some)
  qed
qed

lemma onWillReceiveMessage_fails:
  assumes "\<not> outbound_ok m"
  shows "onWillReceiveMessage cwd sf m = Inl TypeError"
proof (cases "m = JNull")
  case True
  then show ?thesis by (simp add: onWillReceiveMessage_def)
next
  case False
  with assms have c: "get m ''command'' = Some (JStr ''setBreakpoints'')"
    and p: "\<not> path_ok (args_of m)"
    by (auto simp: outbound_ok_def)
  from p obtain args where a: "get m ''arguments'' = Some args"
    by (auto simp: args_of_def path_ok_JNull split: option.splits)
  with p have np: "\<not> path_ok args" by (simp add: args_of_def)
  then have "args \<noteq> JNull" using path_ok_JNull by auto
  with np a c False show ?thesis
    by (auto simp: onWillReceiveMessage_def path_ok_def Let_def opt_get_Some
             split: option.splits json.splits)
qed

text \<open>
  Each hook returns exactly on the messages of the schema, and throws a \<^verbatim>\<open>TypeError\<close>
  on every other one.
\<close>

lemma hooks_return_iff:
  "(\<exists>m'. onWillReceiveMessage cwd sf m = Inr m') \<longleftrightarrow> outbound_ok m"
  "(\<exists>r. onDidSendMessage sf m = Inr r) \<longleftrightarrow> inbound_ok m"
proof -
  show "(\<exists>m'. onWillReceiveMessage cwd sf m = Inr m') \<longleftrightarrow> outbound_ok m"
  proof (cases "outbound_ok m")
    case True
    then show ?thesis using onWillReceiveMessage_ok by blast
  next
    case False
    then show ?thesis by (simp add: onWillReceiveMessage_fails)
  qed
  show "(\<exists>r. onDidSendMessage sf m = Inr r) \<longleftrightarrow> inbound_ok m"
  proof (cases "inbound_ok m")
    case True
    then show ?thesis using onDidSendMessage_ok [of m sf] by auto
  next
    case False
    then show ?thesis by (simp add: onDidSendMessage_fails)
  qed
qed






text \<open>The same event, evaluated: the message itself is handed on untouched.\<close>

lemma fatal_event_boom:
  "onDidSendMessage sf (fatal_event ''boom'') = Inr (fatal_event ''boom'', [''[C11 Debugger] boom''])"
  by (simp add: onDidSendMessage_def fatal_event_def rewrite_body_def rewrite_source_def
                fatal_notifications_def)


text \<open>What the two samples become.\<close>

lemma setBreakpoints_request_rewritten:
  "onWillReceiveMessage ''/'' ''/w'' setBreakpoints_request =
     Inr (JObj [(''seq'', JNum 3), (''type'', JStr ''request''), (''command'', JStr ''setBreakpoints''),
                (''arguments'', JObj [(''source'', JObj [(''name'', JStr ''a.py''),
                                                        (''path'', JStr ''src/a.py'')]),
                                     (''lines'', JArr [JNum 3])])])"
  by (simp add: onWillReceiveMessage_def setBreakpoints_request_def set_source_path_def
                toRelativePath_def relative_def resolve_def isAbsolute_def normalizeString_def
                segments_def)

lemma stackTrace_response_rewritten:
  "onDidSendMessage ''/w'' stackTrace_response =
     Inr (JObj [(''type'', JStr ''response''), (''command'', JStr ''stackTrace''),
                (''body'', JObj [(''stackFrames'', JArr [
                   JObj [(''id'', JNum 1),
                         (''source'', JObj [(''name'', JStr ''a.py''), (''path'', JStr ''/w/src/a.py'')]),
                         (''line'', JNum 3)],
                   JObj [(''id'', JNum 2), (''line'', JNum 7)]])])], [])"
  by (simp add: onDidSendMessage_def stackTrace_response_def rewrite_body_def rewrite_source_def
                set_source_path_def fatal_notifications_def toAbsolutePath_def join_def
                normalize_def isAbsolute_def normalizeString_def)

section \<open>The launch probe\<close>

lemma pingserver_loop_refused:
  assumes net: "\<And>i. \<exists>d\<le>D. net i = Error d"
  shows "start \<le> now \<Longrightarrow> now - start \<le> 60000 + D + 150 \<Longrightarrow>
         \<exists>t. pingserver_loop net start now i = Some (t, Inl Timeout)
            \<and> 60000 < t - start \<and> t - start \<le> 60000 + D + 150"
proof (induction "60001 - (now - start)" arbitrary: now i rule: less_induct)
  case less
  show ?case
  proof (cases "now - start > 60000")
    case True
    with less.prems show ?thesis
      by (subst pingserver_loop.simps) simp
  next
    case False
    from net obtain d where d: "d \<le> D" "net i = Error d" by blast
    have "60001 - (now + d + 150 - start) < 60001 - (now - start)"
      using False less.prems by simp
    moreover have "start \<le> now + d + 150" using less.prems by simp
    moreover have "now + d + 150 - start \<le> 60000 + D + 150"
      using False less.prems d by simp
    ultimately obtain t where
      "pingserver_loop net start (now + d + 150) (Suc i) = Some (t, Inl Timeout)"
      "60000 < t - start" "t - start \<le> 60000 + D + 150"
      using less.hyps by blast
    with False d show ?thesis
      by (subst pingserver_loop.simps) simp
  qed
qed

text \<open>
  Against an endpoint on which every attempt fails (each within \<open>D\<close> milliseconds),
  \<^verbatim>\<open>pingserver\<close> waits 150 ms after each failure, checks the elapsed time once per
  attempt, and throws the timeout error: after more than 60 seconds, and no later than one
  attempt and one wait past them.
\<close>

lemma pingserver_refused_times_out:
  assumes "\<And>i. \<exists>d\<le>D. net i = Error d"
  shows "\<exists>t. pingserver net start = Some (t, Inl Timeout)
            \<and> 60000 < t - start \<and> t - start \<le> 60000 + D + 150"
  unfolding pingserver_def
  using pingserver_loop_refused [of D net start start 0] assms by simp

text \<open>An endpoint that refuses every connection after 20 ms.\<close>

lemma pingserver_refused_example:
  "\<exists>t. pingserver (\<lambda>i. Error 20) 1000 = Some (t, Inl Timeout)
      \<and> 60000 < t - 1000 \<and> t - 1000 \<le> 60170"
  using pingserver_refused_times_out [of 20 "\<lambda>i. Error 20" 1000] by simp

text \<open>
  An attempt that meets a silent peer never settles, whatever came before it: the loop does
  not reach its next reading of the clock.
\<close>

lemma pingserver_loop_silent:
  "now - start \<le> 60000 \<Longrightarrow> net i = Silent \<Longrightarrow> pingserver_loop net start now i = None"
  by (subst pingserver_loop.simps) simp

text \<open>
  Claim C4. The probe is to fail with the timeout error once 60 seconds have passed, whether
  the endpoint refuses the connection or accepts it and stays silent. The code misses the
  second case: against the silent endpoint the first attempt never settles, the elapsed time
  is never read again, and \<^verbatim>\<open>pingserver\<close> never returns, from whatever time it starts: no
  timeout error, at no time.
\<close>

theorem pingserver_silent_hangs:
  "pingserver silent_endpoint start = None"
  by (simp add: pingserver_def pingserver_loop.simps silent_endpoint_def)

text \<open>The probe started at time 0.\<close>

theorem pingserver_silent_hangs_witness:
  "pingserver silent_endpoint 0 = None"
  using pingserver_silent_hangs [of 0] .

section \<open>Block attribution\<close>

text \<open>Leading blanks, a tab and a no-break space go; the text after them stays.\<close>

lemma trimStart_examples:
  "trimStart ''    def g(z):'' = ''def g(z):''"
  "trimStart (CHR 0x09 # CHR 0xC2 # CHR 0xA0 # CHR 0xE3 # CHR 0x80 # CHR 0x80 # ''def f(x):  '') = ''def f(x):  ''"
  "trimStart ''x = 1'' = ''x = 1''"
  "trimStart ''  '' = ''''"
  by (simp_all add: whiteSpace1_def whiteSpace2_def whiteSpace3_def)

lemma fold_assign:
  assumes f: "\<And>line m. f line m = m(Suc line \<mapsto> g line)"
  shows "fold f [a..<n] m k = (if Suc a \<le> k \<and> k \<le> n then Some (g (k - 1)) else m k)"
proof (induction n arbitrary: k)
  case 0
  show ?case by auto
next
  case (Suc n)
  show ?case
  proof (cases "a \<le> n")
    case True
    then have "fold f [a..<Suc n] m k = f n (fold f [a..<n] m) k" by simp
    also have "\<dots> = ((fold f [a..<n] m)(Suc n \<mapsto> g n)) k" by (simp only: f)
    also have "\<dots> = (if k = Suc n then Some (g n) else fold f [a..<n] m k)" by simp
    also have "\<dots> = (if Suc a \<le> k \<and> k \<le> Suc n then Some (g (k - 1)) else m k)"
      using True by (auto simp: Suc.IH)
    finally show ?thesis .
  next
    case False
    then show ?thesis by auto
  qed
qed

lemma assignLines_apply:
  "assignLines m start endLine parent own k =
     (if start + 1 \<le> k \<and> k \<le> endLine + 1
      then Some (if k = start + 1 then parent else own) else m k)"
proof -
  have "assignLines m start endLine parent own k =
      fold (\<lambda>line m. m(Suc line \<mapsto> if line = start then parent else own)) [start..<Suc endLine] m k"
    by (simp add: assignLines_def)
  also have "\<dots> = (if Suc start \<le> k \<and> k \<le> Suc endLine
      then Some (if k - 1 = start then parent else own) else m k)"
    by (rule fold_assign [where g = "\<lambda>line. if line = start then parent else own"]) (rule refl)
  also have "\<dots> = (if start + 1 \<le> k \<and> k \<le> endLine + 1
      then Some (if k = start + 1 then parent else own) else m k)"
    by auto
  finally show ?thesis .
qed

lemma processRange_function:
  assumes "start < length lines" and "prefix ''def '' (trimStart (lines ! start))"
  shows "processRange lines st (start, endLine) =
     Inr \<lparr>lineMap = assignLines (lineMap st) start endLine
                       \<lparr>color = Option.bind (parentInfo st start) color,
                        blockID = Option.bind (parentInfo st start) blockID\<rparr>
                       \<lparr>color = Some (getBlockColors ! (length (popClosed start (endStack st)) mod 5)),
                        blockID = Some (nextBlockId st)\<rparr>,
          endStack = endLine # popClosed start (endStack st),
          nextBlockId = nextBlockId st + 1\<rparr>"
  using assms
  by (simp add: processRange_def parentInfo_def getBlockColors_def Let_def split: list.splits option.splits)

lemma nested_map_eval:
  "map (\<lambda>line. nested_map (line + 1)) [2..<11] =
     [Some \<lparr>color = Some ''#9C27B0'', blockID = Some 0\<rparr>,
      Some \<lparr>color = Some ''#2196F3'', blockID = Some 1\<rparr>,
      Some \<lparr>color = Some ''#2196F3'', blockID = Some 1\<rparr>,
      Some \<lparr>color = Some ''#4CAF50'', blockID = Some 2\<rparr>,
      Some \<lparr>color = Some ''#4CAF50'', blockID = Some 2\<rparr>,
      Some \<lparr>color = Some ''#2196F3'', blockID = Some 1\<rparr>,
      Some \<lparr>color = Some ''#2196F3'', blockID = Some 1\<rparr>,
      Some \<lparr>color = Some ''#2196F3'', blockID = Some 1\<rparr>,
      Some \<lparr>color = Some ''#2196F3'', blockID = Some 1\<rparr>]"
  by (simp add: nested_map_def mapLinesToBlocks_def initialBlocks_def nested_lines_def
                processRange_def whiteSpace1_def whiteSpace2_def whiteSpace3_def getBlockColors_def assignLines_apply upt_rec)

lemma lexicalScope_snoc:
  "lexicalScope (rs @ [r]) l = (if inBody l r then length rs + 1 else lexicalScope rs l)"
  by (simp add: lexicalScope_def)

lemma lexicalDepth_snoc:
  "lexicalDepth (rs @ [r]) l = lexicalDepth rs l + (if inBody l r then 1 else 0)"
  by (simp add: lexicalDepth_def)

lemma scopeRev_cong:
  "\<forall>r\<in>set rs. inBody l r \<longleftrightarrow> inBody l' r \<Longrightarrow> scopeRev rs l = scopeRev rs l'"
  by (induction rs) auto

lemma lexicalInfo_cong:
  assumes "\<forall>r\<in>set rs. inBody l r \<longleftrightarrow> inBody l' r"
  shows "lexicalInfo rs l = lexicalInfo rs l'"
proof -
  have "filter (inBody l) rs = filter (inBody l') rs"
    using assms by (intro filter_cong) auto
  moreover have "scopeRev (rev rs) l = scopeRev (rev rs) l'"
    using assms by (intro scopeRev_cong) simp
  ultimately show ?thesis by (simp add: lexicalInfo_def lexicalDepth_def lexicalScope_def)
qed

lemma popClosed_twice: "s \<le> s' \<Longrightarrow> popClosed s' (popClosed s xs) = popClosed s' xs"
  by (induction xs) auto

lemma sorted_wrt_last:
  "sorted_wrt P xs \<Longrightarrow> x \<in> set xs \<Longrightarrow> x = last xs \<or> P x (last xs)"
  by (induction xs) auto

lemma attributed_initial: "attributed n [] (initialBlocks n)"
  by (auto simp: attributed_def initialBlocks_def covered_def lexicalInfo_def lexicalDepth_def
                 lexicalScope_def)

lemma attributed_step:
  assumes wf: "wellNested n (rs @ [(s, e)])" and inv: "attributed n rs st"
  shows "attributed n (rs @ [(s, e)])
           \<lparr>lineMap = assignLines (lineMap st) s e
                       \<lparr>color = Option.bind (parentInfo st s) color,
                        blockID = Option.bind (parentInfo st s) blockID\<rparr>
                       \<lparr>color = Some (getBlockColors ! (length (popClosed s (endStack st)) mod 5)),
                        blockID = Some (nextBlockId st)\<rparr>,
            endStack = e # popClosed s (endStack st),
            nextBlockId = nextBlockId st + 1\<rparr>"
proof -
  define F where "F = filter (\<lambda>r. s \<le> snd r) rs"
  from wf have se: "s < e" "e < n"
    and w1: "\<forall>r\<in>set rs. fst r < snd r \<and> snd r < n"
    and w2: "sorted_wrt nestedOrApart rs"
    and w3: "\<forall>r\<in>set rs. fst r < s \<and> (snd r < s \<or> e \<le> snd r)"
    by (auto simp: wellNested_def sorted_wrt_append nestedOrApart_def)
  from inv have id: "nextBlockId st = length rs + 1"
    and stack: "\<And>s'. (\<forall>r\<in>set rs. fst r < s') \<Longrightarrow> s' < n \<Longrightarrow>
       popClosed s' (endStack st) = map snd (rev (filter (\<lambda>r. s' \<le> snd r) rs)) @ [n]"
    and cov: "\<And>l. covered rs l \<Longrightarrow> lineMap st (l + 1) = Some (lexicalInfo rs l)"
    and unc: "\<And>k. k = 0 \<or> \<not> covered rs (k - 1) \<Longrightarrow>
       lineMap st k = (if k = n then Some (lexicalInfo [] 0) else None)"
    by (auto simp: attributed_def)
  have popped: "popClosed s (endStack st) = map snd (rev F) @ [n]"
    unfolding F_def using w3 se by (intro stack) auto
  \<comment> \<open>the entry found for the parent is the lexical attribution of the definition line\<close>
  have parent: "parentInfo st s = Some (lexicalInfo rs s)"
  proof (cases "F = []")
    case True
    then have none: "\<forall>r\<in>set rs. snd r < s" by (auto simp: F_def filter_empty_conv)
    have "\<not> covered rs (n - 1)"
      using none se by (auto simp: covered_def)
    then have "lineMap st n = Some (lexicalInfo [] 0)" using unc [of n] by simp
    moreover have "lexicalInfo rs s = lexicalInfo [] 0"
    proof -
      have "filter (inBody s) rs = []" using none by (auto simp: filter_empty_conv inBody_def)
      moreover have "scopeRev (rev rs) s = 0"
        using none by (induction rs rule: rev_induct) (auto simp: inBody_def)
      ultimately show ?thesis by (simp add: lexicalInfo_def lexicalDepth_def lexicalScope_def)
    qed
    ultimately show ?thesis using True by (simp add: parentInfo_def popped)
  next
    case False
    define ri where "ri = last F"
    have riF: "ri \<in> set F" using False by (simp add: ri_def)
    then have ri: "ri \<in> set rs" "s \<le> snd ri" by (auto simp: F_def)
    have top: "parentInfo st s = lineMap st (snd ri)"
      using False by (cases "rev F") (auto simp: parentInfo_def popped ri_def last_rev)
    have lam: "snd ri < s \<or> e \<le> snd ri" "fst ri < s" "fst ri < snd ri" using w3 w1 ri by auto
    with ri se have srange: "Suc s \<le> snd ri" by auto
    have "covered rs (snd ri - 1)"
      using ri lam by (auto simp: covered_def intro!: bexI [of _ ri])
    then have "lineMap st (snd ri - 1 + 1) = Some (lexicalInfo rs (snd ri - 1))" by (rule cov)
    then have look: "lineMap st (snd ri) = Some (lexicalInfo rs (snd ri - 1))" using srange by simp
    have sortedF: "sorted_wrt nestedOrApart F" unfolding F_def using w2 by (rule sorted_wrt_filter)
    have "inBody (snd ri - 1) r \<longleftrightarrow> inBody s r" if r: "r \<in> set rs" for r
    proof
      assume "inBody (snd ri - 1) r"
      with srange w3 r show "inBody s r" by (auto simp: inBody_def)
    next
      assume b: "inBody s r"
      then have "r \<in> set F" using r by (simp add: F_def inBody_def)
      with sortedF have "r = ri \<or> nestedOrApart r ri"
        unfolding ri_def by (rule sorted_wrt_last)
      then have "snd ri \<le> snd r"
        using b lam w3 ri by (auto simp: nestedOrApart_def inBody_def)
      with b srange show "inBody (snd ri - 1) r" by (auto simp: inBody_def)
    qed
    then have "lexicalInfo rs (snd ri - 1) = lexicalInfo rs s"
      by (intro lexicalInfo_cong) simp
    with top look show ?thesis by simp
  qed
  \<comment> \<open>the colour of the new scope is the palette's at the lexical depth of its body\<close>
  have depth: "lexicalDepth rs l = length F" if "s < l" "l \<le> e" for l
  proof -
    have "filter (inBody l) rs = F"
      unfolding F_def using that w3 se by (intro filter_cong) (auto simp: inBody_def)
    then show ?thesis by (simp add: lexicalDepth_def)
  qed
  let ?own = "\<lparr>color = Some (getBlockColors ! (length (popClosed s (endStack st)) mod 5)),
               blockID = Some (nextBlockId st)\<rparr>"
  have own: "?own = lexicalInfo (rs @ [(s, e)]) l" if "s < l" "l \<le> e" for l
    using that depth [OF that]
    by (simp add: lexicalInfo_def lexicalDepth_snoc lexicalScope_snoc inBody_def popped id)
  have keep: "lexicalInfo (rs @ [(s, e)]) l = lexicalInfo rs l" if "\<not> (s < l \<and> l \<le> e)" for l
    using that by (auto simp: lexicalInfo_def lexicalDepth_snoc lexicalScope_snoc inBody_def)
  have cov': "covered (rs @ [(s, e)]) l \<longleftrightarrow> covered rs l \<or> (s \<le> l \<and> l \<le> e)" for l
    by (auto simp: covered_def)
  show ?thesis
    unfolding attributed_def
  proof (intro conjI allI impI)
    show "nextBlockId \<lparr>lineMap = assignLines (lineMap st) s e
                       \<lparr>color = Option.bind (parentInfo st s) color,
                        blockID = Option.bind (parentInfo st s) blockID\<rparr> ?own,
            endStack = e # popClosed s (endStack st),
            nextBlockId = nextBlockId st + 1\<rparr> = length (rs @ [(s, e)]) + 1"
      by (simp add: id)
  next
    fix s' assume a: "(\<forall>r\<in>set (rs @ [(s, e)]). fst r < s') \<and> s' < n"
    then have s': "s < s'" "s' < n" "\<forall>r\<in>set rs. fst r < s'" by auto
    have old: "popClosed s' (popClosed s (endStack st)) = map snd (rev (filter (\<lambda>r. s' \<le> snd r) rs)) @ [n]"
      using s' by (simp add: popClosed_twice stack)
    show "popClosed s' (endStack \<lparr>lineMap = assignLines (lineMap st) s e
                       \<lparr>color = Option.bind (parentInfo st s) color,
                        blockID = Option.bind (parentInfo st s) blockID\<rparr> ?own,
            endStack = e # popClosed s (endStack st),
            nextBlockId = nextBlockId st + 1\<rparr>)
          = map snd (rev (filter (\<lambda>r. s' \<le> snd r) (rs @ [(s, e)]))) @ [n]"
    proof (cases "s' > e")
      case True
      then show ?thesis by (simp add: old)
    next
      case False
      have "filter (\<lambda>r. s' \<le> snd r) rs = F"
        unfolding F_def using False s' w3 by (intro filter_cong) auto
      with False show ?thesis by (simp add: popped)
    qed
  next
    fix l assume c: "covered (rs @ [(s, e)]) l"
    show "lineMap \<lparr>lineMap = assignLines (lineMap st) s e
                       \<lparr>color = Option.bind (parentInfo st s) color,
                        blockID = Option.bind (parentInfo st s) blockID\<rparr> ?own,
            endStack = e # popClosed s (endStack st),
            nextBlockId = nextBlockId st + 1\<rparr> (l + 1) = Some (lexicalInfo (rs @ [(s, e)]) l)"
    proof (cases "s \<le> l \<and> l \<le> e")
      case True
      show ?thesis
      proof (cases "l = s")
        case True
        then show ?thesis
          using se keep [of s] by (simp add: assignLines_apply parent lexicalInfo_def)
      next
        case False
        with True have "s < l" "l \<le> e" by auto
        then show ?thesis using own [of l] by (simp add: assignLines_apply)
      qed
    next
      case False
      with c have "covered rs l" by (simp add: cov')
      with False show ?thesis using keep [of l] cov [of l] by (auto simp: assignLines_apply)
    qed
  next
    fix k assume "k = 0 \<or> \<not> covered (rs @ [(s, e)]) (k - 1)"
    then have "k = 0 \<or> (\<not> covered rs (k - 1) \<and> \<not> (s \<le> k - 1 \<and> k - 1 \<le> e))"
      by (simp add: cov')
    then have out: "\<not> (s + 1 \<le> k \<and> k \<le> e + 1)" and old: "k = 0 \<or> \<not> covered rs (k - 1)"
      by auto
    have "assignLines (lineMap st) s e
            \<lparr>color = Option.bind (parentInfo st s) color,
             blockID = Option.bind (parentInfo st s) blockID\<rparr> ?own k = lineMap st k"
      using out by (simp only: assignLines_apply if_False)
    then show "lineMap \<lparr>lineMap = assignLines (lineMap st) s e
                       \<lparr>color = Option.bind (parentInfo st s) color,
                        blockID = Option.bind (parentInfo st s) blockID\<rparr> ?own,
            endStack = e # popClosed s (endStack st),
            nextBlockId = nextBlockId st + 1\<rparr> k = (if k = n then Some (lexicalInfo [] 0) else None)"
      using unc [OF old] by simp
  qed
qed

lemma wellNested_prefix: "wellNested n (xs @ ys) \<Longrightarrow> wellNested n xs"
  by (auto simp: wellNested_def sorted_wrt_append)

lemma processRanges_attributed:
  assumes "attributed (length lines) rs st" and "wellNested (length lines) (rs @ frs)"
    and "\<forall>fr\<in>set frs. isDef lines fr"
  shows "\<exists>st'. processRanges lines st frs = Inr st' \<and> attributed (length lines) (rs @ frs) st'"
  using assms
proof (induction frs arbitrary: rs st)
  case Nil
  then show ?case by simp
next
  case (Cons fr frs)
  obtain s e where fr: "fr = (s, e)" by (cases fr)
  from Cons.prems(2) have wf1: "wellNested (length lines) ((rs @ [(s, e)]) @ frs)"
    by (simp add: fr)
  then have wf2: "wellNested (length lines) (rs @ [(s, e)])" by (rule wellNested_prefix)
  then have "s < length lines" by (auto simp: wellNested_def)
  moreover from Cons.prems(3) have "prefix ''def '' (trimStart (lines ! s))"
    by (simp add: fr isDef_def)
  ultimately have step: "processRange lines st (s, e) =
     Inr \<lparr>lineMap = assignLines (lineMap st) s e
                       \<lparr>color = Option.bind (parentInfo st s) color,
                        blockID = Option.bind (parentInfo st s) blockID\<rparr>
                       \<lparr>color = Some (getBlockColors ! (length (popClosed s (endStack st)) mod 5)),
                        blockID = Some (nextBlockId st)\<rparr>,
          endStack = e # popClosed s (endStack st),
          nextBlockId = nextBlockId st + 1\<rparr>"
    by (rule processRange_function)
  note inv = attributed_step [OF wf2 Cons.prems(1)]
  from Cons.IH [OF inv wf1] Cons.prems(3)
  show ?case by (simp add: fr step)
qed

lemma processRanges_skip:
  assumes "\<forall>fr\<in>set frs. fst fr < length lines"
  shows "processRanges lines st frs = processRanges lines st (filter (isDef lines) frs)"
  using assms
proof (induction frs arbitrary: st)
  case Nil
  show ?case by simp
next
  case (Cons fr frs)
  show ?case
  proof (cases "isDef lines fr")
    case True
    with Cons show ?thesis by (auto split: sum.splits)
  next
    case False
    with Cons.prems have "processRange lines st fr = Inr st"
      by (cases fr) (simp add: processRange_def isDef_def)
    with False Cons show ?thesis by simp
  qed
qed

lemma mapLinesToBlocks_lexical:
  assumes "\<forall>fr\<in>set frs. fst fr < length lines"
    and "wellNested (length lines) (filter (isDef lines) frs)"
  shows "\<exists>m. mapLinesToBlocks None lines frs = Inr m
           \<and> (\<forall>l. covered (filter (isDef lines) frs) l \<longrightarrow>
                  m (l + 1) = Some (lexicalInfo (filter (isDef lines) frs) l))
           \<and> (\<forall>k. (k = 0 \<or> \<not> covered (filter (isDef lines) frs) (k - 1)) \<longrightarrow>
                  m k = (if k = length lines then Some (lexicalInfo [] 0) else None))"
proof -
  have "\<exists>st'. processRanges lines (initialBlocks (length lines)) (filter (isDef lines) frs) = Inr st'
          \<and> attributed (length lines) ([] @ filter (isDef lines) frs) st'"
    using assms(2) by (intro processRanges_attributed attributed_initial) simp_all
  then obtain st' where "processRanges lines (initialBlocks (length lines)) frs = Inr st'"
    and "attributed (length lines) (filter (isDef lines) frs) st'"
    using processRanges_skip [OF assms(1)] by auto
  then show ?thesis
    by (simp add: mapLinesToBlocks_def attributed_def)
qed

lemma lexical_example:
  "map (lexicalInfo [(2, 10), (4, 6)]) [2..<11] =
     [\<lparr>color = Some ''#9C27B0'', blockID = Some 0\<rparr>,
      \<lparr>color = Some ''#2196F3'', blockID = Some 1\<rparr>,
      \<lparr>color = Some ''#2196F3'', blockID = Some 1\<rparr>,
      \<lparr>color = Some ''#4CAF50'', blockID = Some 2\<rparr>,
      \<lparr>color = Some ''#4CAF50'', blockID = Some 2\<rparr>,
      \<lparr>color = Some ''#2196F3'', blockID = Some 1\<rparr>,
      \<lparr>color = Some ''#2196F3'', blockID = Some 1\<rparr>,
      \<lparr>color = Some ''#2196F3'', blockID = Some 1\<rparr>,
      \<lparr>color = Some ''#2196F3'', blockID = Some 1\<rparr>]"
  by (simp add: lexicalInfo_def lexicalDepth_def lexicalScope_def inBody_def getBlockColors_def upt_rec)

text \<open>
  Claim C1. Processing a function's folding range gives the range's first line, the
  definition line, the scope id and colour recorded for the innermost scope still open
  around it (its parent), and gives every other line of the range the id of the scope just
  created, with the palette colour of its nesting depth. For function ranges in ascending
  order that are nested or apart, the map that results is the lexical attribution: a
  definition line belongs to the innermost function whose body holds it, the module scope 0
  at top level, and a body line to the innermost function around it. In the twelve-line file
  with the nested ranges (2,10) and (4,6): line 2 is in module scope 0, lines 3 and 7 to 10
  are in scope 1, the inner definition line 4 is in scope 1, and lines 5 and 6 are in scope 2.
  (The entry of line \<open>l\<close> is stored under \<open>l + 1\<close>.)
\<close>

theorem definition_line_inherits_parent:
  "(start < length lines \<and> isDef lines (start, endLine) \<and> start \<le> endLine \<longrightarrow>
      (\<exists>st'. processRange lines st (start, endLine) = Inr st'
          \<and> lineMap st' (start + 1) =
                Some \<lparr>color = Option.bind (parentInfo st start) color,
                      blockID = Option.bind (parentInfo st start) blockID\<rparr>
          \<and> (\<forall>line. start < line \<and> line \<le> endLine \<longrightarrow>
                lineMap st' (line + 1) =
                  Some \<lparr>color = Some (getBlockColors ! (length (popClosed start (endStack st)) mod 5)),
                        blockID = Some (nextBlockId st)\<rparr>)
          \<and> (\<forall>k. k < start + 1 \<or> endLine + 1 < k \<longrightarrow> lineMap st' k = lineMap st k)
          \<and> nextBlockId st' = nextBlockId st + 1))
   \<and> ((\<forall>fr\<in>set frs. fst fr < length lines) \<and> wellNested (length lines) (filter (isDef lines) frs) \<longrightarrow>
      (\<exists>m. mapLinesToBlocks None lines frs = Inr m
          \<and> (\<forall>l. covered (filter (isDef lines) frs) l \<longrightarrow>
                 m (l + 1) = Some (lexicalInfo (filter (isDef lines) frs) l))))
   \<and> map (\<lambda>line. nested_map (line + 1)) [2..<11] =
            [Some \<lparr>color = Some ''#9C27B0'', blockID = Some 0\<rparr>,
             Some \<lparr>color = Some ''#2196F3'', blockID = Some 1\<rparr>,
             Some \<lparr>color = Some ''#2196F3'', blockID = Some 1\<rparr>,
             Some \<lparr>color = Some ''#4CAF50'', blockID = Some 2\<rparr>,
             Some \<lparr>color = Some ''#4CAF50'', blockID = Some 2\<rparr>,
             Some \<lparr>color = Some ''#2196F3'', blockID = Some 1\<rparr>,
             Some \<lparr>color = Some ''#2196F3'', blockID = Some 1\<rparr>,
             Some \<lparr>color = Some ''#2196F3'', blockID = Some 1\<rparr>,
             Some \<lparr>color = Some ''#2196F3'', blockID = Some 1\<rparr>]"
proof (intro conjI impI)
  assume "start < length lines \<and> isDef lines (start, endLine) \<and> start \<le> endLine"
  then show "\<exists>st'. processRange lines st (start, endLine) = Inr st'
          \<and> lineMap st' (start + 1) =
                Some \<lparr>color = Option.bind (parentInfo st start) color,
                      blockID = Option.bind (parentInfo st start) blockID\<rparr>
          \<and> (\<forall>line. start < line \<and> line \<le> endLine \<longrightarrow>
                lineMap st' (line + 1) =
                  Some \<lparr>color = Some (getBlockColors ! (length (popClosed start (endStack st)) mod 5)),
                        blockID = Some (nextBlockId st)\<rparr>)
          \<and> (\<forall>k. k < start + 1 \<or> endLine + 1 < k \<longrightarrow> lineMap st' k = lineMap st k)
          \<and> nextBlockId st' = nextBlockId st + 1"
    by (simp add: processRange_function isDef_def) (simp add: assignLines_apply)
next
  assume "(\<forall>fr\<in>set frs. fst fr < length lines) \<and> wellNested (length lines) (filter (isDef lines) frs)"
  then show "\<exists>m. mapLinesToBlocks None lines frs = Inr m
          \<and> (\<forall>l. covered (filter (isDef lines) frs) l \<longrightarrow>
                 m (l + 1) = Some (lexicalInfo (filter (isDef lines) frs) l))"
    using mapLinesToBlocks_lexical [of frs lines] by blast
qed (rule nested_map_eval)

text \<open>
  The example once more: its outer range processed from the initial state, and its two
  ranges as well-nested function ranges with the lexical attribution of lines 4 and 5.
\<close>

theorem definition_line_inherits_parent_witness:
  "(\<exists>st'. processRange nested_lines (initialBlocks 12) (2, 10) = Inr st'
        \<and> lineMap st' 3 = Some \<lparr>color = Some ''#9C27B0'', blockID = Some 0\<rparr>
        \<and> lineMap st' 4 = Some \<lparr>color = Some ''#2196F3'', blockID = Some 1\<rparr>
        \<and> lineMap st' 11 = Some \<lparr>color = Some ''#2196F3'', blockID = Some 1\<rparr>)
   \<and> (\<exists>m. mapLinesToBlocks None nested_lines [(2, 10), (4, 6)] = Inr m
        \<and> m 5 = Some \<lparr>color = Some ''#2196F3'', blockID = Some 1\<rparr>
        \<and> m 6 = Some \<lparr>color = Some ''#4CAF50'', blockID = Some 2\<rparr>)"
proof -
  note c1 = definition_line_inherits_parent
    [of 2 nested_lines 10 "initialBlocks 12" "[(2, 10), (4, 6)]"]
  have a: "2 < length nested_lines \<and> isDef nested_lines (2, 10) \<and> (2::nat) \<le> 10"
    by (simp add: nested_lines_def whiteSpace1_def whiteSpace2_def whiteSpace3_def isDef_def)
  have p: "parentInfo (initialBlocks 12) 2 = Some \<lparr>color = Some ''#9C27B0'', blockID = Some 0\<rparr>"
    and q: "popClosed 2 (endStack (initialBlocks 12)) = [12]"
    and n: "nextBlockId (initialBlocks 12) = 1"
    by (simp_all add: parentInfo_def initialBlocks_def getBlockColors_def)
  from c1 a
  obtain st' where st': "processRange nested_lines (initialBlocks 12) (2, 10) = Inr st'"
    and d: "lineMap st' (2 + 1) = Some \<lparr>color = Option.bind (parentInfo (initialBlocks 12) 2) color,
                      blockID = Option.bind (parentInfo (initialBlocks 12) 2) blockID\<rparr>"
    and b: "\<forall>line. 2 < line \<and> line \<le> 10 \<longrightarrow>
                lineMap st' (line + 1) =
                  Some \<lparr>color = Some (getBlockColors ! (length (popClosed 2 (endStack (initialBlocks 12))) mod 5)),
                        blockID = Some (nextBlockId (initialBlocks 12))\<rparr>"
    by blast
  from b [rule_format, of 3] b [rule_format, of 10]
  have "lineMap st' 4 = Some \<lparr>color = Some ''#2196F3'', blockID = Some 1\<rparr>"
    and "lineMap st' 11 = Some \<lparr>color = Some ''#2196F3'', blockID = Some 1\<rparr>"
    by (simp_all add: q n getBlockColors_def)
  with st' d have first: "\<exists>st'. processRange nested_lines (initialBlocks 12) (2, 10) = Inr st'
        \<and> lineMap st' 3 = Some \<lparr>color = Some ''#9C27B0'', blockID = Some 0\<rparr>
        \<and> lineMap st' 4 = Some \<lparr>color = Some ''#2196F3'', blockID = Some 1\<rparr>
        \<and> lineMap st' 11 = Some \<lparr>color = Some ''#2196F3'', blockID = Some 1\<rparr>"
    by (simp add: p)
  have f: "filter (isDef nested_lines) [(2, 10), (4, 6)] = [(2, 10), (4, 6)]"
    by (simp add: nested_lines_def whiteSpace1_def whiteSpace2_def whiteSpace3_def isDef_def)
  have w: "(\<forall>fr\<in>set [(2, 10), (4, 6)]. fst fr < length nested_lines)
      \<and> wellNested (length nested_lines) (filter (isDef nested_lines) [(2, 10), (4, 6)])"
    unfolding f by (simp add: wellNested_def nestedOrApart_def nested_lines_def)
  from c1 w obtain m where m: "mapLinesToBlocks None nested_lines [(2, 10), (4, 6)] = Inr m"
    and lex: "\<forall>l. covered [(2, 10), (4, 6)] l \<longrightarrow> m (l + 1) = Some (lexicalInfo [(2, 10), (4, 6)] l)"
    unfolding f by blast
  from lex [rule_format, of 4] lex [rule_format, of 5]
  have "m 5 = Some \<lparr>color = Some ''#2196F3'', blockID = Some 1\<rparr>"
    and "m 6 = Some \<lparr>color = Some ''#4CAF50'', blockID = Some 2\<rparr>"
    by (simp_all add: covered_def lexicalInfo_def lexicalDepth_def lexicalScope_def inBody_def
                      getBlockColors_def)
  with m first show ?thesis by blast
qed

section \<open>Rounding\<close>

lemma round_even_nonneg: "0 \<le> y \<Longrightarrow> 0 \<le> round_even y"
  by (auto simp: round_even_def Let_def)

lemma round_even_le: "y \<le> of_int n \<Longrightarrow> round_even y \<le> n"
proof -
  assume le: "y \<le> of_int n"
  then have f: "\<lfloor>y\<rfloor> \<le> n" by (simp add: floor_le_iff)
  show ?thesis
  proof (cases "\<lfloor>y\<rfloor> = n")
    case True
    with le have "y - of_int \<lfloor>y\<rfloor> \<le> 0" by simp
    then show ?thesis using True by (simp add: round_even_def Let_def)
  next
    case False
    with f have "\<lfloor>y\<rfloor> + 1 \<le> n" by simp
    then show ?thesis using f by (auto simp: round_even_def Let_def)
  qed
qed

lemma fl_nonneg: "0 \<le> x \<Longrightarrow> 0 \<le> fl x"
  by (simp add: fl_def Let_def round_even_nonneg)

lemma js_round_nonneg: "0 \<le> x \<Longrightarrow> 0 \<le> js_round x"
  by (simp add: js_round_def)

lemma quotient_of_abs_pos:
  assumes "x \<noteq> 0" and "quotient_of \<bar>x\<bar> = (p, q)"
  shows "0 < p" "0 < q" "\<bar>x\<bar> = of_int p / of_int q"
proof -
  from assms(2) show q: "0 < q" by (rule quotient_of_denom_pos)
  from assms(2) show e: "\<bar>x\<bar> = of_int p / of_int q" by (rule quotient_of_div)
  from assms(1) have "0 < \<bar>x\<bar>" by simp
  with e q show "0 < p" by (simp add: zero_less_divide_iff)
qed

lemma binexp_le:
  assumes "x \<noteq> 0"
  shows "2 powi (binexp x) \<le> \<bar>x\<bar>"
proof -
  obtain p q where pq: "quotient_of \<bar>x\<bar> = (p, q)" by (cases "quotient_of \<bar>x\<bar>")
  note pos = quotient_of_abs_pos [OF assms pq]
  define d where "d = bitlen p - bitlen q"
  show ?thesis
  proof (cases "(2::rat) powi d \<le> \<bar>x\<bar>")
    case True
    then show ?thesis by (simp add: binexp_def pq d_def)
  next
    case False
    have bp: "2 ^ nat (bitlen p - 1) \<le> p" and bq: "q < 2 ^ nat (bitlen q)"
      using bitlen_bounds [of p] bitlen_bounds [of q] pos by simp_all
    have p1: "1 \<le> bitlen p" using pos(1) bitlen_nonneg [of p] bitlen_eq_zero_iff [of p] by linarith
    have q0: "0 \<le> bitlen q" by (rule bitlen_nonneg)
    have eq: "d - 1 = (bitlen p - 1) - bitlen q" by (simp add: d_def)
    have "(2::rat) powi (d - 1) = 2 powi ((bitlen p - 1) - bitlen q)"
      by (simp only: eq)
    also have "\<dots> = 2 powi (bitlen p - 1) / 2 powi (bitlen q)"
      by (rule power_int_diff) simp
    also have "\<dots> = 2 ^ nat (bitlen p - 1) / 2 ^ nat (bitlen q)"
      using p1 q0 by (simp add: power_int_nonneg_exp)
    also have "\<dots> \<le> of_int p / of_int q"
    proof (rule frac_le)
      show "(0::rat) \<le> of_int p" using pos by simp
      have "(of_int (2 ^ nat (bitlen p - 1)) :: rat) \<le> of_int p" using bp by (simp only: of_int_le_iff)
      then show "(2::rat) ^ nat (bitlen p - 1) \<le> of_int p" by simp
      show "(0::rat) < of_int q" using pos by simp
      have "(of_int q :: rat) \<le> of_int (2 ^ nat (bitlen q))" using bq by (simp only: of_int_le_iff)
      then show "(of_int q :: rat) \<le> 2 ^ nat (bitlen q)" by simp
    qed
    finally have "(2::rat) powi (d - 1) \<le> \<bar>x\<bar>" using pos(3) by simp
    with False show ?thesis by (simp add: binexp_def pq d_def)
  qed
qed

lemma fl_le_int:
  assumes "0 \<le> x" and "x \<le> of_int n" and "n \<le> 2 ^ 52"
  shows "fl x \<le> of_int n"
proof (cases "x = 0")
  case True
  with assms show ?thesis by (simp add: fl_def)
next
  case False
  define e where "e = binexp x"
  have le: "2 powi e \<le> x" using binexp_le [OF False] assms(1) by (simp add: e_def)
  have "e \<le> 52"
  proof (rule ccontr)
    assume "\<not> e \<le> 52"
    then have "(2::rat) powi 53 \<le> 2 powi e" by (intro power_int_increasing) simp_all
    with le assms(2) have "(2::rat) ^ 53 \<le> of_int n" by simp
    then have "(of_int (2 ^ 53) :: rat) \<le> of_int n" by simp
    then have "(2::int) ^ 53 \<le> n" by (simp only: of_int_le_iff)
    with assms(3) show False by simp
  qed
  define k where "k = nat (52 - e)"
  have u: "(2::rat) powi (e - 52) = 1 / 2 ^ k"
  proof -
    have "e - 52 = - int k" using \<open>e \<le> 52\<close> by (simp add: k_def)
    then show ?thesis by (simp add: power_int_minus_divide)
  qed
  have "x / (1 / 2 ^ k) = x * 2 ^ k" by simp
  also have "\<dots> \<le> of_int n * 2 ^ k" using assms(2) by (simp add: mult_right_mono)
  also have "\<dots> = of_int (n * 2 ^ k)" by simp
  finally have "round_even (x / (1 / 2 ^ k)) \<le> n * 2 ^ k" by (rule round_even_le)
  then have "(of_int (round_even (x / (1 / 2 ^ k))) :: rat) \<le> of_int (n * 2 ^ k)"
    by (simp only: of_int_le_iff)
  then have "of_int (round_even (x / (1 / 2 ^ k))) * (1 / 2 ^ k) \<le> (of_int n :: rat)"
    by (simp add: field_simps)
  then show ?thesis
    using False by (simp add: fl_def Let_def e_def [symmetric] u)
qed

section \<open>Durations\<close>

lemma formatDuration_examples:
  "formatDuration 1000000 1500000 = ''1s 500ms''"
  "formatDuration 1000000 2500 = ''2ms 500'' @ micro @ ''s''"
  "formatDuration 1000000 3 = ''3'' @ micro @ ''s''"
  by code_simp+

lemma duration_remainder_nonneg:
  "0 \<le> js_round (fmul (fsub x (of_int \<lfloor>x\<rfloor>)) 1000)"
proof -
  have "0 \<le> x - of_int \<lfloor>x\<rfloor>" by simp
  then have "0 \<le> fsub x (of_int \<lfloor>x\<rfloor>)" unfolding fsub_def by (rule fl_nonneg)
  then have "0 \<le> fmul (fsub x (of_int \<lfloor>x\<rfloor>)) 1000"
    unfolding fmul_def by (intro fl_nonneg) simp
  then show ?thesis by (rule js_round_nonneg)
qed

lemma formatDuration_components:
  "0 < cps \<Longrightarrow>
     formatDuration cps ticks = render_components (duration_components ticks cps)"
  using duration_remainder_nonneg [of "fdiv ticks cps"]
        duration_remainder_nonneg [of "fmul (fdiv ticks cps) 1000"]
  by (auto simp: formatDuration_def duration_components_def render_components_def Let_def)

text \<open>
  Claim C9. For a positive clock rate the formatter returns the text of the specification:
  whole seconds with the rounded milliseconds of the remainder appended only when they are
  not zero, else whole milliseconds with the rounded microseconds appended only when they
  are not zero, else the rounded microseconds. A leading seconds or milliseconds component is
  at least 1 and a second component is never zero, so no zero stands beside another
  component. The three sample durations print as \<^verbatim>\<open>1s 500ms\<close>, \<^verbatim>\<open>2ms 500\<close>\<mu>\<^verbatim>\<open>s\<close> and
  \<^verbatim>\<open>3\<close>\<mu>\<^verbatim>\<open>s\<close>.
\<close>

theorem formatDuration_spec:
  "(0 < cps \<longrightarrow>
      formatDuration cps ticks = render_components (duration_components ticks cps)
      \<and> length (duration_components ticks cps) \<in> {1, 2}
      \<and> (\<forall>(n, u)\<in>set (duration_components ticks cps).
            (u = ''s'' \<or> u = ''ms'' \<or> length (duration_components ticks cps) = 2) \<longrightarrow> 1 \<le> n))
   \<and> formatDuration 1000000 1500000 = ''1s 500ms''
   \<and> formatDuration 1000000 2500 = ''2ms 500'' @ micro @ ''s''
   \<and> formatDuration 1000000 3 = ''3'' @ micro @ ''s''"
proof (intro conjI impI)
  assume pos: "0 < cps"
  then show "formatDuration cps ticks =
      render_components (duration_components ticks cps)"
    by (rule formatDuration_components)
  show "length (duration_components ticks cps) \<in> {1, 2}"
    by (simp add: duration_components_def Let_def)
  show "\<forall>(n, u)\<in>set (duration_components ticks cps).
      (u = ''s'' \<or> u = ''ms'' \<or> length (duration_components ticks cps) = 2) \<longrightarrow> 1 \<le> n"
    using duration_remainder_nonneg [of "fdiv ticks cps"]
          duration_remainder_nonneg [of "fmul (fdiv ticks cps) 1000"]
    by (auto simp: duration_components_def Let_def micro_def le_floor_iff split: if_splits)
qed (rule formatDuration_examples)+

text \<open>One and a half seconds at a microsecond clock.\<close>

theorem formatDuration_spec_witness:
  "render_components (duration_components 1500000 1000000) = ''1s 500ms''
   \<and> length (duration_components 1500000 1000000) \<in> {1, 2}"
  using formatDuration_spec [of 1000000 1500000] by auto

section \<open>Rendering\<close>

lemma addBlockTime_apply:
  "addBlockTime blockLevels r m scope =
     (if scopeOf blockLevels r = scope
      then Some ((case m scope of Some t \<Rightarrow> t | None \<Rightarrow> 0) + snd (snd r))
      else m scope)"
  by (cases r) (auto simp: addBlockTime_def scopeOf_def Let_def)

lemma scopeTotal_Cons:
  "scopeTotal blockLevels (r # records) scope =
     (if scopeOf blockLevels r = scope then snd (snd r) else 0) + scopeTotal blockLevels records scope"
  by (cases r) (simp add: scopeTotal_def)

lemma scopeTotal_none:
  "\<forall>r\<in>set records. scopeOf blockLevels r \<noteq> scope \<Longrightarrow> scopeTotal blockLevels records scope = 0"
  by (induction records) (auto simp: scopeTotal_Cons, simp add: scopeTotal_def)

lemma fold_addBlockTime:
  "fold (addBlockTime blockLevels) records m scope =
     (if \<exists>r\<in>set records. scopeOf blockLevels r = scope
      then Some ((case m scope of Some t \<Rightarrow> t | None \<Rightarrow> 0) + scopeTotal blockLevels records scope)
      else m scope)"
proof (induction records arbitrary: m)
  case Nil
  show ?case by simp
next
  case (Cons r records)
  have "fold (addBlockTime blockLevels) (r # records) m scope =
      fold (addBlockTime blockLevels) records (addBlockTime blockLevels r m) scope"
    by simp
  also have "\<dots> =
     (if \<exists>r'\<in>set records. scopeOf blockLevels r' = scope
      then Some ((case addBlockTime blockLevels r m scope of Some t \<Rightarrow> t | None \<Rightarrow> 0)
                 + scopeTotal blockLevels records scope)
      else addBlockTime blockLevels r m scope)"
    by (rule Cons.IH)
  also have "\<dots> =
     (if \<exists>r'\<in>set (r # records). scopeOf blockLevels r' = scope
      then Some ((case m scope of Some t \<Rightarrow> t | None \<Rightarrow> 0)
                 + scopeTotal blockLevels (r # records) scope)
      else m scope)"
    by (auto simp: addBlockTime_apply scopeTotal_Cons scopeTotal_none split: option.splits)
  finally show ?case .
qed

lemma blockTimes_total:
  assumes "r \<in> set records"
  shows "fold (addBlockTime blockLevels) records Map.empty (scopeOf blockLevels r) =
           Some (scopeTotal blockLevels records (scopeOf blockLevels r))"
  using assms by (auto simp: fold_addBlockTime)

lemma time_le_scopeTotal:
  assumes "r \<in> set records"
  shows "snd (snd r) \<le> scopeTotal blockLevels records (scopeOf blockLevels r)"
  using assms
proof (induction records)
  case Nil
  then show ?case by simp
next
  case (Cons r' records)
  then show ?case by (auto simp: scopeTotal_Cons)
qed

lemma shown_Nil: "shown [] d \<longleftrightarrow> False"
  by (simp add: shown_def)

lemma shown_Cons: "shown ((c, ds) # groups) d \<longleftrightarrow> d \<in> set ds \<or> shown groups d"
  by (simp add: shown_def)

lemma shown_pushOption: "shown (pushOption c d groups) d' \<longleftrightarrow> d' = d \<or> shown groups d'"
proof (induction groups)
  case Nil
  show ?case by (simp add: shown_Nil shown_Cons)
next
  case (Cons g groups)
  obtain c' ds where g: "g = (c', ds)" by (cases g)
  show ?case unfolding g using Cons.IH by (auto simp: shown_Cons)
qed

lemma ratioOf_total:
  "ratioOf time (Some t) = (if t = 0 then 0 else fdiv (of_nat time) (of_nat t))"
  by (simp add: ratioOf_def)

lemma decorateRecord_ok:
  assumes "1 \<le> fst r"
    and "blockTimes (scopeOf blockLevels r) = Some (scopeTotal blockLevels records (scopeOf blockLevels r))"
  shows "decorateRecord cps blockLevels blockTimes acc r =
     Inr \<lparr>colorToOptions = pushOption (backgroundOf blockLevels records r)
                              (lineDecorationOf cps blockLevels records r) (colorToOptions acc),
          prefixOptions = prefixOptions acc @ [prefixOf blockLevels records r],
          coveredLines = coveredLines acc @ [fst r - 1]\<rparr>"
proof -
  obtain line hits time where r: "r = (line, hits, time)" by (cases r)
  from assms(2) have bt: "blockTimes (blockID (blockInfoOf blockLevels line)) =
      Some (scopeTotal blockLevels records (scopeOf blockLevels (line, hits, time)))"
    by (simp add: r scopeOf_def)
  from assms(1) have "\<not> line - 1 < 0" by (simp add: r)
  then show ?thesis
    unfolding r decorateRecord_def
    by (simp add: bt ratioOf_total percentOf_def createLineDecoration_def createPrefixDecoration_def
                  range_at_def lineDecorationOf_def prefixOf_def backgroundOf_def Let_def)
qed

lemma decorateRecords_ok:
  assumes "\<forall>r\<in>set rs. 1 \<le> fst r"
    and "\<forall>r\<in>set rs. blockTimes (scopeOf blockLevels r)
           = Some (scopeTotal blockLevels records (scopeOf blockLevels r))"
  shows "\<exists>acc'. decorateRecords cps blockLevels blockTimes acc rs = Inr acc'
           \<and> prefixOptions acc' = prefixOptions acc @ map (prefixOf blockLevels records) rs
           \<and> coveredLines acc' = coveredLines acc @ map (\<lambda>r. fst r - 1) rs
           \<and> (\<forall>d. shown (colorToOptions acc') d \<longleftrightarrow>
                  shown (colorToOptions acc) d \<or> d \<in> lineDecorationOf cps blockLevels records ` set rs)"
  using assms
proof (induction rs arbitrary: acc)
  case Nil
  show ?case by simp
next
  case (Cons r rs)
  define acc1 where "acc1 =
       \<lparr>colorToOptions = pushOption (backgroundOf blockLevels records r)
                            (lineDecorationOf cps blockLevels records r) (colorToOptions acc),
        prefixOptions = prefixOptions acc @ [prefixOf blockLevels records r],
        coveredLines = coveredLines acc @ [fst r - 1]\<rparr>"
  from Cons.prems have step: "decorateRecord cps blockLevels blockTimes acc r = Inr acc1"
    unfolding acc1_def by (intro decorateRecord_ok) simp_all
  from Cons.prems have "\<forall>r\<in>set rs. 1 \<le> fst r"
    and "\<forall>r\<in>set rs. blockTimes (scopeOf blockLevels r)
           = Some (scopeTotal blockLevels records (scopeOf blockLevels r))"
    by simp_all
  from Cons.IH [OF this, of acc1] obtain acc' where
    rest: "decorateRecords cps blockLevels blockTimes acc1 rs = Inr acc'"
      "prefixOptions acc' = prefixOptions acc1 @ map (prefixOf blockLevels records) rs"
      "coveredLines acc' = coveredLines acc1 @ map (\<lambda>r. fst r - 1) rs"
      "\<forall>d. shown (colorToOptions acc') d \<longleftrightarrow>
           shown (colorToOptions acc1) d \<or> d \<in> lineDecorationOf cps blockLevels records ` set rs"
    by blast
  have "decorateRecords cps blockLevels blockTimes acc (r # rs) = Inr acc'"
    using step rest(1) by simp
  moreover have "prefixOptions acc' = prefixOptions acc @ map (prefixOf blockLevels records) (r # rs)"
    using rest(2) by (simp add: acc1_def)
  moreover have "coveredLines acc' = coveredLines acc @ map (\<lambda>r. fst r - 1) (r # rs)"
    using rest(3) by (simp add: acc1_def)
  moreover have "\<forall>d. shown (colorToOptions acc') d \<longleftrightarrow>
      shown (colorToOptions acc) d \<or> d \<in> lineDecorationOf cps blockLevels records ` set (r # rs)"
    using rest(4) by (auto simp: acc1_def shown_pushOption)
  ultimately show ?case by blast
qed

lemma renderRecords_ok:
  assumes "\<forall>r\<in>set records. 1 \<le> fst r"
  shows "\<exists>out. renderRecords cps blockLevels totalLines records = Inr out
           \<and> prefixes out = map (prefixOf blockLevels records) records
                @ map PaddingDecoration
                    (filter (\<lambda>i. int i \<notin> (\<lambda>r. fst r - 1) ` set records) [0..<totalLines])
           \<and> (\<forall>d. shown (backgrounds out) d \<longleftrightarrow>
                  d \<in> lineDecorationOf cps blockLevels records ` set records)"
proof -
  define blockTimes where "blockTimes = fold (addBlockTime blockLevels) records Map.empty"
  have "\<forall>r\<in>set records. blockTimes (scopeOf blockLevels r)
           = Some (scopeTotal blockLevels records (scopeOf blockLevels r))"
    by (simp add: blockTimes_def blockTimes_total)
  from decorateRecords_ok [OF assms this,
      of cps "\<lparr>colorToOptions = [], prefixOptions = [], coveredLines = []\<rparr>"]
  obtain acc where acc:
    "decorateRecords cps blockLevels blockTimes
        \<lparr>colorToOptions = [], prefixOptions = [], coveredLines = []\<rparr> records = Inr acc"
    "prefixOptions acc = map (prefixOf blockLevels records) records"
    "coveredLines acc = map (\<lambda>r. fst r - 1) records"
    "\<forall>d. shown (colorToOptions acc) d \<longleftrightarrow> d \<in> lineDecorationOf cps blockLevels records ` set records"
    by (auto simp: shown_def)
  then show ?thesis
    by (simp add: renderRecords_def blockTimes_def [symmetric])
qed

lemma ratio_bounds:
  assumes "time \<le> tot"
  shows "0 \<le> ratioOf time (Some tot)" "ratioOf time (Some tot) \<le> 1"
proof -
  show "0 \<le> ratioOf time (Some tot)"
    by (simp add: ratioOf_def fdiv_def fl_nonneg)
  show "ratioOf time (Some tot) \<le> 1"
  proof (cases "tot = 0")
    case True
    then show ?thesis by (simp add: ratioOf_def)
  next
    case False
    have "(of_nat time :: rat) / of_nat tot \<le> of_int 1"
      using assms False by (simp add: divide_le_eq_1)
    moreover have "(0::rat) \<le> of_nat time / of_nat tot" by simp
    ultimately have "fl (of_nat time / of_nat tot) \<le> of_int 1"
      by (intro fl_le_int) simp_all
    with False show ?thesis by (simp add: ratioOf_def fdiv_def)
  qed
qed

lemma percent_bounds:
  assumes "0 \<le> ratio" "ratio \<le> 1"
  shows "0 \<le> percentOf ratio" "percentOf ratio \<le> 100"
proof -
  from assms have nn: "0 \<le> ratio * 100" and le: "ratio * 100 \<le> of_int 100" by simp_all
  have "0 \<le> fmul ratio 100" unfolding fmul_def using nn by (rule fl_nonneg)
  then show "0 \<le> percentOf ratio" unfolding percentOf_def by (rule js_round_nonneg)
  have "fl (ratio * 100) \<le> of_int 100" using nn le by (rule fl_le_int) simp
  then have "fmul ratio 100 + 1 / 2 < 101" by (simp add: fmul_def)
  then show "percentOf ratio \<le> 100" by (simp add: percentOf_def js_round_def floor_le_iff)
qed

lemma processRange_keys:
  assumes "processRange lines st fr = Inr st'" and "snd fr < n" and "\<forall>k>n. lineMap st k = None"
  shows "\<forall>k>n. lineMap st' k = None"
  using assms
  by (cases fr)
     (auto simp: processRange_def Let_def assignLines_apply split: if_splits)

lemma processRanges_keys:
  assumes "processRanges lines st frs = Inr st'" and "\<forall>fr\<in>set frs. snd fr < n"
    and "\<forall>k>n. lineMap st k = None"
  shows "\<forall>k>n. lineMap st' k = None"
  using assms
proof (induction frs arbitrary: st)
  case Nil
  then show ?case by simp
next
  case (Cons fr frs)
  from Cons.prems(1) obtain st1 where st1: "processRange lines st fr = Inr st1"
    and rest: "processRanges lines st1 frs = Inr st'"
    by (auto split: sum.splits)
  from st1 Cons.prems have "\<forall>k>n. lineMap st1 k = None"
    by (intro processRange_keys [of lines st fr st1 n]) simp_all
  with rest Cons.prems show ?case by (intro Cons.IH [of st1]) simp_all
qed

lemma mapLinesToBlocks_keys:
  assumes "mapLinesToBlocks None lines foldRanges = Inr m"
    and "\<forall>fr\<in>set foldRanges. snd fr < length lines"
  shows "\<forall>k>length lines. m k = None"
proof -
  from assms(1) obtain st where st: "processRanges lines (initialBlocks (length lines)) foldRanges = Inr st"
    and m: "m = lineMap st"
    by (auto simp: mapLinesToBlocks_def split: sum.splits)
  have "\<forall>k>length lines. lineMap (initialBlocks (length lines)) k = None"
    by (simp add: initialBlocks_def)
  from processRanges_keys [OF st assms(2) this] m show ?thesis by simp
qed

lemma sample_relPath: "normalize (relative ''/'' ''/w'' ''/w/src/a.py'') = ''src/a.py''"
  by (simp add: normalize_def relative_def resolve_def isAbsolute_def normalizeString_def segments_def)

lemma sample_blockLevels: "mapLinesToBlocks None nested_lines [(2, 10), (4, 6)] = Inr nested_map"
proof -
  have "\<exists>m. mapLinesToBlocks None nested_lines [(2, 10), (4, 6)] = Inr m"
    by (simp add: mapLinesToBlocks_def initialBlocks_def nested_lines_def
                  processRange_def whiteSpace1_def whiteSpace2_def whiteSpace3_def getBlockColors_def Let_def)
  then show ?thesis by (auto simp: nested_map_def)
qed

lemma rendered_sample:
  assumes "records \<noteq> []"
  shows "rendered records = renderRecords 1000000 nested_map 12 records"
proof -
  have "length nested_lines = 12" by (simp add: nested_lines_def)
  then show ?thesis
    using assms
    by (simp add: rendered_def applyToEditor_def getProperty_def sample_profiler_def
                  sample_editor_def sample_relPath sample_blockLevels Let_def split: sum.splits)
qed

lemma rendered_prefixes:
  assumes "records \<noteq> []" and "\<forall>r\<in>set records. 1 \<le> fst r"
  shows "labels records = Inr (map (prefixOf nested_map records) records)"
  using renderRecords_ok [OF assms(2), of 1000000 nested_map 12]
  by (auto simp: labels_def rendered_sample [OF assms(1)])

lemma prefixOf_examples:
  "prefixOf nested_map [(1, 10, 100), (2, 5, 50)] (1, 10, 100) =
     PrefixDecoration 0 '' 67%'' ''#f0f0f0'' (Some ''#9C27B0'')"
  "prefixOf nested_map [(1, 10, 100), (2, 5, 50)] (2, 5, 50) =
     PrefixDecoration 1 '' 33%'' ''#f0f0f0'' (Some ''#9C27B0'')"
  "prefixOf nested_map [(1, 10, 100), (99, 5, 50)] (1, 10, 100) =
     PrefixDecoration 0 '' 67%'' ''#f0f0f0'' (Some ''#9C27B0'')"
  "prefixOf nested_map [(1, 10, 100), (99, 5, 50)] (99, 5, 50) =
     PrefixDecoration 98 '' 33%'' ''#f0f0f0'' (Some ''#9C27B0'')"
  "scopeTotal nested_map [(1, 10, 100), (2, 5, 50)] (Some 0) = 150"
  "scopeTotal nested_map [(1, 10, 100), (99, 5, 50)] (Some 0) = 150"
  by code_simp+


lemma rendered_examples:
  "labels [(1, 10, 100), (2, 5, 50)] =
     Inr [PrefixDecoration 0 '' 67%'' ''#f0f0f0'' (Some ''#9C27B0''),
          PrefixDecoration 1 '' 33%'' ''#f0f0f0'' (Some ''#9C27B0'')]"
  using rendered_prefixes [of "[(1, 10, 100), (2, 5, 50)]"]
  by (simp add: prefixOf_examples)


lemma scopeOf_ownerIn: "scopeOf blockLevels r = ownerIn blockLevels (fst r)"
  by (cases r) (simp add: scopeOf_def blockInfoOf_def ownerIn_def split: option.splits)

lemma scopeTotal_totalOf:
  "scopeTotal blockLevels records scope = totalOf (ownerIn blockLevels) records scope"
proof -
  have "(\<lambda>r. scopeOf blockLevels r = scope) = (\<lambda>(line, hits, time). ownerIn blockLevels line = scope)"
    by (auto simp: fun_eq_iff scopeOf_ownerIn)
  then show ?thesis by (simp add: scopeTotal_def totalOf_def)
qed

lemma prefixOf_labelOf:
  "prefixOf blockLevels records r = labelOf (ownerIn blockLevels) (colourIn blockLevels) records r"
proof -
  obtain line hits time where r: "r = (line, hits, time)" by (cases r)
  have "color (blockInfoOf blockLevels line) = colourIn blockLevels line"
    by (simp add: blockInfoOf_def colourIn_def split: option.splits)
  moreover have "scopeOf blockLevels (line, hits, time) = ownerIn blockLevels line"
    by (simp add: scopeOf_ownerIn)
  ultimately show ?thesis
    unfolding r
    by (simp add: prefixOf_def labelOf_def percentIn_def scopeTotal_totalOf Let_def)
qed

lemma totalOf_cong:
  assumes "\<forall>r\<in>set records. f (fst r) = g (fst r)"
  shows "totalOf f records scope = totalOf g records scope"
proof -
  have "filter (\<lambda>(line, hits, time). f line = scope) records
      = filter (\<lambda>(line, hits, time). g line = scope) records"
    using assms by (intro filter_cong) auto
  then show ?thesis by (simp add: totalOf_def)
qed

lemma labelOf_cong:
  assumes "\<forall>r\<in>set records. f (fst r) = g (fst r) \<and> c (fst r) = d (fst r)"
    and "r \<in> set records"
  shows "labelOf f c records r = labelOf g d records r"
proof -
  obtain line hits time where r: "r = (line, hits, time)" by (cases r)
  from assms have fg: "f line = g line" "c line = d line" by (auto simp: r)
  have "totalOf f records (g line) = totalOf g records (g line)"
    using assms(1) by (intro totalOf_cong) simp
  then show ?thesis
    unfolding r by (simp add: labelOf_def percentIn_def fg Let_def)
qed

lemma scopeRev_outside: "\<forall>r\<in>set rs. \<not> inBody l r \<Longrightarrow> scopeRev rs l = 0"
  by (induction rs) auto

lemma inBody_covered: "r \<in> set rs \<Longrightarrow> inBody l r \<Longrightarrow> covered rs l"
  unfolding inBody_def covered_def by (intro bexI [of _ r]) auto

lemma lexical_outside:
  assumes "\<not> covered rs l"
  shows "lexicalScope rs l = 0" "lexicalDepth rs l = 0"
proof -
  from assms have no: "\<forall>r\<in>set rs. \<not> inBody l r" using inBody_covered by blast
  then show "lexicalScope rs l = 0" by (simp add: lexicalScope_def scopeRev_outside)
  from no show "lexicalDepth rs l = 0" by (simp add: lexicalDepth_def)
qed

lemma mapLinesToBlocks_owner:
  assumes "\<forall>fr\<in>set frs. fst fr < length lines"
    and "wellNested (length lines) (filter (isDef lines) frs)"
  shows "\<exists>m. mapLinesToBlocks None lines frs = Inr m
           \<and> (\<forall>line\<ge>1. ownerIn m line = lexicalOwner (filter (isDef lines) frs) line
                      \<and> colourIn m line = lexicalColour (filter (isDef lines) frs) line)"
proof -
  define rs where "rs = filter (isDef lines) frs"
  from mapLinesToBlocks_lexical [OF assms] obtain m where m: "mapLinesToBlocks None lines frs = Inr m"
    and cov: "\<forall>l. covered rs l \<longrightarrow> m (l + 1) = Some (lexicalInfo rs l)"
    and unc: "\<forall>k. (k = 0 \<or> \<not> covered rs (k - 1)) \<longrightarrow>
                  m k = (if k = length lines then Some (lexicalInfo [] 0) else None)"
    unfolding rs_def by blast
  have "ownerIn m line = lexicalOwner rs line \<and> colourIn m line = lexicalColour rs line"
    if line: "1 \<le> line" for line
  proof -
    define l where "l = nat (line - 1)"
    from line have k: "nat line = l + 1" and nn: "\<not> line < 0" by (simp_all add: l_def)
    show ?thesis
    proof (cases "covered rs l")
      case True
      with cov have "m (l + 1) = Some (lexicalInfo rs l)" by blast
      then show ?thesis
        using nn
        by (simp add: ownerIn_def colourIn_def lexicalOwner_def lexicalColour_def k
                      lexicalInfo_def l_def [symmetric])
    next
      case False
      with unc [rule_format, of "l + 1"]
      have "m (l + 1) = (if l + 1 = length lines then Some (lexicalInfo [] 0) else None)" by simp
      moreover have "lexicalInfo [] 0 = \<lparr>color = Some (getBlockColors ! 0), blockID = Some 0\<rparr>"
        by (simp add: lexicalInfo_def lexicalDepth_def lexicalScope_def)
      ultimately show ?thesis
        using nn lexical_outside [OF False]
        by (simp add: ownerIn_def colourIn_def lexicalOwner_def lexicalColour_def k
                      l_def [symmetric])
    qed
  qed
  with m show ?thesis unfolding rs_def by blast
qed

lemma applyToEditor_lexical:
  assumes lines: "\<forall>r\<in>set records. 1 \<le> fst r"
    and cache: "editorToColors this (fsPath ed) = None"
    and own: "data this (normalize (relative cwd (sourceRoot this) (fsPath ed))) = Some records"
    and starts: "\<forall>fr\<in>set (foldingRanges ed). fst fr < length (documentLines ed)"
    and nested: "wellNested (length (documentLines ed))
                   (filter (isDef (documentLines ed)) (foldingRanges ed))"
  shows "\<exists>this' out. applyToEditor cwd this ed = Inr (this', out)
           \<and> take (length records) (prefixes out) =
               map (labelOf (lexicalOwner (filter (isDef (documentLines ed)) (foldingRanges ed)))
                            (lexicalColour (filter (isDef (documentLines ed)) (foldingRanges ed)))
                            records) records"
proof (cases "records = []")
  case True
  with own show ?thesis
    by (simp add: applyToEditor_def getProperty_def Let_def)
next
  case False
  define rs where "rs = filter (isDef (documentLines ed)) (foldingRanges ed)"
  from mapLinesToBlocks_owner [OF starts nested] obtain m where
    m: "mapLinesToBlocks None (documentLines ed) (foldingRanges ed) = Inr m"
    and agree: "\<forall>line\<ge>1. ownerIn m line = lexicalOwner rs line \<and> colourIn m line = lexicalColour rs line"
    unfolding rs_def by blast
  from renderRecords_ok [OF lines, of "clocksPerSec this" m "length (documentLines ed)"]
  obtain out where out: "renderRecords (clocksPerSec this) m (length (documentLines ed)) records = Inr out"
    and pre: "take (length records) (prefixes out) = map (prefixOf m records) records"
    by auto
  have "map (prefixOf m records) records = map (labelOf (lexicalOwner rs) (lexicalColour rs) records) records"
  proof (rule map_cong [OF refl])
    fix r assume r: "r \<in> set records"
    have "prefixOf m records r = labelOf (ownerIn m) (colourIn m) records r"
      by (rule prefixOf_labelOf)
    also have "\<dots> = labelOf (lexicalOwner rs) (lexicalColour rs) records r"
      using agree lines r by (intro labelOf_cong) auto
    finally show "prefixOf m records r = labelOf (lexicalOwner rs) (lexicalColour rs) records r" .
  qed
  with pre have "take (length records) (prefixes out)
      = map (labelOf (lexicalOwner rs) (lexicalColour rs) records) records"
    by simp
  moreover have "applyToEditor cwd this ed
      = Inr (this\<lparr>editorToColors := (editorToColors this)(fsPath ed \<mapsto> m)\<rparr>, out)"
    using False by (simp add: applyToEditor_def getProperty_def own cache m out Let_def)
  ultimately show ?thesis unfolding rs_def by blast
qed

lemma sample_functions: "filter (isDef nested_lines) [(2, 10), (4, 6)] = [(2, 10), (4, 6)]"
  by (simp add: isDef_def nested_lines_def whiteSpace1_def whiteSpace2_def whiteSpace3_def)

lemma sample_wellNested: "wellNested 12 [(2, 10), (4, 6)]"
  by (simp add: wellNested_def nestedOrApart_def)

lemma labels_lexical:
  assumes "\<forall>r\<in>set records. 1 \<le> fst r"
  shows "labels records =
           Inr (map (labelOf (lexicalOwner [(2, 10), (4, 6)]) (lexicalColour [(2, 10), (4, 6)]) records)
                  records)"
proof -
  have len: "length nested_lines = 12" by (simp add: nested_lines_def)
  have ed: "documentLines sample_editor = nested_lines"
    "foldingRanges sample_editor = [(2, 10), (4, 6)]"
    by (simp_all add: sample_editor_def)
  have cache: "editorToColors (sample_profiler records) (fsPath sample_editor) = None"
    by (simp add: sample_profiler_def)
  have own: "data (sample_profiler records)
      (normalize (relative ''/'' (sourceRoot (sample_profiler records)) (fsPath sample_editor)))
      = Some records"
    by (simp add: sample_profiler_def sample_editor_def sample_relPath)
  have starts: "\<forall>fr\<in>set (foldingRanges sample_editor). fst fr < length (documentLines sample_editor)"
    by (simp add: ed len)
  have nested: "wellNested (length (documentLines sample_editor))
      (filter (isDef (documentLines sample_editor)) (foldingRanges sample_editor))"
    by (simp only: ed sample_functions len sample_wellNested)
  from applyToEditor_lexical [OF assms cache own starts nested]
  obtain this' out where
    "applyToEditor ''/'' (sample_profiler records) sample_editor = Inr (this', out)"
    "take (length records) (prefixes out) =
       map (labelOf (lexicalOwner [(2, 10), (4, 6)]) (lexicalColour [(2, 10), (4, 6)]) records) records"
    unfolding ed sample_functions by blast
  then show ?thesis
    by (simp add: labels_def rendered_def)
qed

lemma scoped_totals:
  "totalOf (lexicalOwner [(2, 10), (4, 6)]) scoped_records (Some 0) = 400"
  "totalOf (lexicalOwner [(2, 10), (4, 6)]) scoped_records (Some 1) = 40"
  "totalOf (lexicalOwner [(2, 10), (4, 6)]) scoped_records (Some 2) = 80"
  by code_simp+

lemma scoped_labels:
  "map (labelOf (lexicalOwner [(2, 10), (4, 6)]) (lexicalColour [(2, 10), (4, 6)]) scoped_records)
     scoped_records =
     [PrefixDecoration 0 '' 25%'' ''#f0f0f0'' (Some ''#9C27B0''),
      PrefixDecoration 2 '' 75%'' ''#f0f0f0'' (Some ''#9C27B0''),
      PrefixDecoration 3 '' 75%'' ''#f0f0f0'' (Some ''#2196F3''),
      PrefixDecoration 4 '' 25%'' ''#f0f0f0'' (Some ''#2196F3''),
      PrefixDecoration 5 '' 75%'' ''#f0f0f0'' (Some ''#4CAF50''),
      PrefixDecoration 6 '' 25%'' ''#f0f0f0'' (Some ''#4CAF50'')]"
  by code_simp

lemma scoped_rendered:
  "labels scoped_records =
     Inr [PrefixDecoration 0 '' 25%'' ''#f0f0f0'' (Some ''#9C27B0''),
          PrefixDecoration 2 '' 75%'' ''#f0f0f0'' (Some ''#9C27B0''),
          PrefixDecoration 3 '' 75%'' ''#f0f0f0'' (Some ''#2196F3''),
          PrefixDecoration 4 '' 25%'' ''#f0f0f0'' (Some ''#2196F3''),
          PrefixDecoration 5 '' 75%'' ''#f0f0f0'' (Some ''#4CAF50''),
          PrefixDecoration 6 '' 25%'' ''#f0f0f0'' (Some ''#4CAF50'')]"
proof -
  have "\<forall>r\<in>set scoped_records. 1 \<le> fst r" by (simp add: scoped_records_def)
  from labels_lexical [OF this] show ?thesis by (simp only: scoped_labels)
qed

text \<open>
  Claim C8. Every profiled line is labelled with the rounded percentage of its ratio, the
  ratio being the line's time over the total of the scope that owns the line, and 0 when that
  total is 0. The owning scope is the one the line map gives the line; for a document whose
  function ranges are nested or apart, rendered through \<^verbatim>\<open>applyToEditor\<close>, it is the
  innermost function whose body holds the line, and the module otherwise. With the records
  \<^verbatim>\<open>[[1,10,100],[2,5,50]]\<close>, both in the module scope, the scope's total is 150 and the
  lines show 67% and 33%; with records in three scopes, each line shows its share of its own
  scope's total.
\<close>

theorem percent_of_scope_total:
  assumes "\<forall>r\<in>set records. 1 \<le> fst r"
  shows "(\<exists>out. renderRecords cps blockLevels totalLines records = Inr out
            \<and> take (length records) (prefixes out) =
                map (labelOf (ownerIn blockLevels) (colourIn blockLevels) records) records)
       \<and> (editorToColors this (fsPath ed) = None
            \<and> data this (normalize (relative cwd (sourceRoot this) (fsPath ed))) = Some records
            \<and> (\<forall>fr\<in>set (foldingRanges ed). fst fr < length (documentLines ed))
            \<and> wellNested (length (documentLines ed))
                  (filter (isDef (documentLines ed)) (foldingRanges ed)) \<longrightarrow>
            (\<exists>this' out. applyToEditor cwd this ed = Inr (this', out)
               \<and> take (length records) (prefixes out) =
                   map (labelOf (lexicalOwner (filter (isDef (documentLines ed)) (foldingRanges ed)))
                                (lexicalColour (filter (isDef (documentLines ed)) (foldingRanges ed)))
                                records) records))
       \<and> totalOf (ownerIn nested_map) [(1, 10, 100), (2, 5, 50)] (Some 0) = 150
       \<and> labels [(1, 10, 100), (2, 5, 50)] =
            Inr [PrefixDecoration 0 '' 67%'' ''#f0f0f0'' (Some ''#9C27B0''),
                 PrefixDecoration 1 '' 33%'' ''#f0f0f0'' (Some ''#9C27B0'')]
       \<and> totalOf (lexicalOwner [(2, 10), (4, 6)]) scoped_records (Some 0) = 400
       \<and> totalOf (lexicalOwner [(2, 10), (4, 6)]) scoped_records (Some 1) = 40
       \<and> totalOf (lexicalOwner [(2, 10), (4, 6)]) scoped_records (Some 2) = 80
       \<and> labels scoped_records =
            Inr [PrefixDecoration 0 '' 25%'' ''#f0f0f0'' (Some ''#9C27B0''),
                 PrefixDecoration 2 '' 75%'' ''#f0f0f0'' (Some ''#9C27B0''),
                 PrefixDecoration 3 '' 75%'' ''#f0f0f0'' (Some ''#2196F3''),
                 PrefixDecoration 4 '' 25%'' ''#f0f0f0'' (Some ''#2196F3''),
                 PrefixDecoration 5 '' 75%'' ''#f0f0f0'' (Some ''#4CAF50''),
                 PrefixDecoration 6 '' 25%'' ''#f0f0f0'' (Some ''#4CAF50'')]"
proof (intro conjI impI)
  from renderRecords_ok [OF assms, of cps blockLevels totalLines]
  show "\<exists>out. renderRecords cps blockLevels totalLines records = Inr out
            \<and> take (length records) (prefixes out) =
                map (labelOf (ownerIn blockLevels) (colourIn blockLevels) records) records"
    by (auto simp: prefixOf_labelOf)
next
  assume "editorToColors this (fsPath ed) = None
            \<and> data this (normalize (relative cwd (sourceRoot this) (fsPath ed))) = Some records
            \<and> (\<forall>fr\<in>set (foldingRanges ed). fst fr < length (documentLines ed))
            \<and> wellNested (length (documentLines ed))
                  (filter (isDef (documentLines ed)) (foldingRanges ed))"
  then show "\<exists>this' out. applyToEditor cwd this ed = Inr (this', out)
               \<and> take (length records) (prefixes out) =
                   map (labelOf (lexicalOwner (filter (isDef (documentLines ed)) (foldingRanges ed)))
                                (lexicalColour (filter (isDef (documentLines ed)) (foldingRanges ed)))
                                records) records"
    using applyToEditor_lexical [OF assms, of this ed cwd] by blast
next
  show "totalOf (ownerIn nested_map) [(1, 10, 100), (2, 5, 50)] (Some 0) = 150"
    using prefixOf_examples(5) by (simp only: scopeTotal_totalOf)
qed (rule rendered_examples scoped_totals scoped_rendered)+

text \<open>
  Three records of one scope with the times 1, 1 and 2, and the same records in the
  twelve-line file, where line 3 is the outer definition line.
\<close>

theorem percent_of_scope_total_witness:
  "(\<exists>out. renderRecords 1000000 Map.empty 5 [(1, 1, 1), (2, 1, 1), (3, 4, 2)] = Inr out
        \<and> take 3 (prefixes out) =
            map (labelOf (ownerIn Map.empty) (colourIn Map.empty) [(1, 1, 1), (2, 1, 1), (3, 4, 2)])
              [(1, 1, 1), (2, 1, 1), (3, 4, 2)])
   \<and> (\<exists>this' out. applyToEditor ''/'' (sample_profiler [(1, 1, 1), (2, 1, 1), (3, 4, 2)]) sample_editor
                       = Inr (this', out)
        \<and> take 3 (prefixes out) =
            map (labelOf (lexicalOwner [(2, 10), (4, 6)]) (lexicalColour [(2, 10), (4, 6)])
                   [(1, 1, 1), (2, 1, 1), (3, 4, 2)])
              [(1, 1, 1), (2, 1, 1), (3, 4, 2)])"
proof -
  define records :: "ProfileRecord list" where "records = [(1, 1, 1), (2, 1, 1), (3, 4, 2)]"
  have len: "length nested_lines = 12" by (simp add: nested_lines_def)
  have ed: "documentLines sample_editor = nested_lines"
    "foldingRanges sample_editor = [(2, 10), (4, 6)]"
    by (simp_all add: sample_editor_def)
  have lines: "\<forall>r\<in>set records. 1 \<le> fst r" by (simp add: records_def)
  have cache: "editorToColors (sample_profiler records) (fsPath sample_editor) = None"
    by (simp add: sample_profiler_def)
  have own: "data (sample_profiler records)
      (normalize (relative ''/'' (sourceRoot (sample_profiler records)) (fsPath sample_editor)))
      = Some records"
    by (simp add: sample_profiler_def sample_editor_def sample_relPath)
  have starts: "\<forall>fr\<in>set (foldingRanges sample_editor). fst fr < length (documentLines sample_editor)"
    by (simp add: ed len)
  have nested: "wellNested (length (documentLines sample_editor))
      (filter (isDef (documentLines sample_editor)) (foldingRanges sample_editor))"
    by (simp only: ed sample_functions len sample_wellNested)
  have three: "length records = 3" by (simp add: records_def)
  from percent_of_scope_total [OF lines, of 1000000 Map.empty 5 "sample_profiler records"
         sample_editor "''/''"] cache own starts nested
  show ?thesis
    unfolding ed sample_functions three by (simp only: records_def [symmetric])
qed

text \<open>
  Claim C10. Every record is attributed to a scope, a line without an entry in the line map
  to the module scope 0 with the first palette colour; the total accumulated for that scope
  includes the record's own time, so the ratio lies between 0 and 1 and the percentage
  between 0 and 100.
\<close>

theorem ratio_and_percent_bounded:
  assumes "(line, hits, time) \<in> set records"
  shows "((line < 0 \<or> blockLevels (nat line) = None) \<longrightarrow>
            blockInfoOf blockLevels line = \<lparr>color = Some (getBlockColors ! 0), blockID = Some 0\<rparr>)
       \<and> (\<exists>tot. fold (addBlockTime blockLevels) records Map.empty
                    (blockID (blockInfoOf blockLevels line)) = Some tot
              \<and> time \<le> tot
              \<and> 0 \<le> ratioOf time (Some tot) \<and> ratioOf time (Some tot) \<le> 1
              \<and> 0 \<le> percentOf (ratioOf time (Some tot))
              \<and> percentOf (ratioOf time (Some tot)) \<le> 100)"
proof -
  define tot where "tot = scopeTotal blockLevels records (scopeOf blockLevels (line, hits, time))"
  have "fold (addBlockTime blockLevels) records Map.empty (scopeOf blockLevels (line, hits, time)) = Some tot"
    unfolding tot_def using assms by (rule blockTimes_total)
  then have t: "fold (addBlockTime blockLevels) records Map.empty
      (blockID (blockInfoOf blockLevels line)) = Some tot"
    by (simp add: scopeOf_def)
  have le: "time \<le> tot"
    unfolding tot_def using time_le_scopeTotal [OF assms, of blockLevels] by simp
  note r = ratio_bounds [OF le]
  note p = percent_bounds [OF r]
  have "(line < 0 \<or> blockLevels (nat line) = None) \<longrightarrow>
      blockInfoOf blockLevels line = \<lparr>color = Some (getBlockColors ! 0), blockID = Some 0\<rparr>"
    by (auto simp: blockInfoOf_def)
  with t le r p show ?thesis by blast
qed

text \<open>A record on a line without an entry, beside one more record of the module scope.\<close>

theorem ratio_and_percent_bounded_witness:
  "blockInfoOf Map.empty 7 = \<lparr>color = Some (getBlockColors ! 0), blockID = Some 0\<rparr>
   \<and> (\<exists>tot. fold (addBlockTime Map.empty) [(7, 1, 30), (8, 2, 70)] Map.empty
                (blockID (blockInfoOf Map.empty 7)) = Some tot
          \<and> 30 \<le> tot \<and> ratioOf 30 (Some tot) \<le> 1 \<and> percentOf (ratioOf 30 (Some tot)) \<le> 100)"
  using ratio_and_percent_bounded [of 7 1 30 "[(7, 1, 30), (8, 2, 70)]" Map.empty]
  by auto




text \<open>A record on line 0 makes the position negative, and the rendering fails.\<close>

lemma record_on_line_zero_raises:
  "renderRecords cps blockLevels totalLines [(0, hits, time)] = Inl IllegalArgument"
  by (simp add: renderRecords_def decorateRecord_def createLineDecoration_def range_at_def Let_def)

end
